theory Spec2Isabelle
  imports Main "HOL-Library.Word"
begin

section \<open>JavaScript values and errors\<close>

text \<open>
  The values that flow through the storage classes and the authentication delegate:
  \<open>undefined\<close>, \<open>null\<close>, booleans, numbers, strings, arrays, plain objects, and
  \<open>Object.prototype\<close> itself, which a read of \<open>__proto__\<close> returns. Functions are not
  values of the model. A number is an
  integer from \<open>-2^53\<close> to \<open>2^53 - 1\<close>: each is a double of its own, printed in plain
  decimal. A character is a code unit below 256. An object is the list of its own
  enumerable properties in the order JavaScript enumerates them: the array indices in
  ascending order, then the other names in the order of their creation.
\<close>

datatype jsval =
    Undefined
  | Null
  | Bool bool
  | Num "54 word"
  | Str string
  | Arr "jsval list"
  | Obj "(string \<times> jsval) list"
  | ObjectPrototype

text \<open>
  Every exception the modelled code can raise, as a value. \<open>OutsideModel\<close> is no
  exception of the code: it is the outcome of an operation whose result the values above
  cannot express (a number with a fraction, a character above 255, a method of
  \<open>Object.prototype\<close>, a read through a prototype that a caller has replaced). Nothing is
  said about the code there, and no handler of the model catches it.
\<close>

datatype error =
    TypeError
  | SyntaxError
  | URIError
  | Error string
  | ChannelIsNotDefined string
  | InvalidProjectIdError jsval
  | StorageIsNotConnected
  | UnsuitablePlatformException string
  | BackendError string
  | OutsideModel

section \<open>Property names and their order\<close>

definition digit_char :: "nat \<Rightarrow> char" where
  "digit_char d = char_of (48 + d)"

function nat_digits :: "nat \<Rightarrow> string" where
  "nat_digits n = (if n < 10 then [digit_char n] else nat_digits (n div 10) @ [digit_char (n mod 10)])"
  by pat_completeness auto
termination
  by (relation "measure id") auto

declare nat_digits.simps [simp del]

definition is_digit :: "char \<Rightarrow> bool" where
  "is_digit c \<longleftrightarrow> (48::nat) \<le> of_char c \<and> of_char c \<le> (57::nat)"

definition digit_val :: "char \<Rightarrow> nat" where
  "digit_val c = of_char c - 48"

definition digits_nat :: "string \<Rightarrow> nat" where
  "digits_nat ds = foldl (\<lambda>a c. 10 * a + digit_val c) 0 ds"

text \<open>
  An array index is the canonical decimal text of an integer from 0 to \<open>2^32 - 2\<close>.
  Creating a property puts an array index before every larger index and before every
  other name, and any other name last; defining a property that exists replaces its
  value where it stands.
\<close>

definition array_index :: "string \<Rightarrow> nat option" where
  "array_index s =
     (if s \<noteq> [] \<and> list_all is_digit s \<and> (length s = 1 \<or> hd s \<noteq> CHR ''0'')
         \<and> digits_nat s \<le> 4294967294
      then Some (digits_nat s) else None)"

definition comes_before :: "string \<Rightarrow> string \<Rightarrow> bool" where
  "comes_before k k' =
     (case array_index k of
        None \<Rightarrow> False
      | Some n \<Rightarrow> (case array_index k' of None \<Rightarrow> True | Some m \<Rightarrow> n < m))"

fun js_insert :: "string \<Rightarrow> 'v \<Rightarrow> (string \<times> 'v) list \<Rightarrow> (string \<times> 'v) list" where
  "js_insert k v [] = [(k, v)]"
| "js_insert k v (p # ps) =
     (if comes_before k (fst p) then (k, v) # p # ps else p # js_insert k v ps)"

fun js_replace :: "string \<Rightarrow> 'v \<Rightarrow> (string \<times> 'v) list \<Rightarrow> (string \<times> 'v) list" where
  "js_replace k v [] = []"
| "js_replace k v (p # ps) = (if fst p = k then (k, v) # ps else p # js_replace k v ps)"

definition js_define :: "string \<Rightarrow> 'v \<Rightarrow> (string \<times> 'v) list \<Rightarrow> (string \<times> 'v) list" where
  "js_define k v kvs = (if k \<in> set (map fst kvs) then js_replace k v kvs else js_insert k v kvs)"

text \<open>
  Reading and assigning a property of a plain object given by its own enumerable
  properties. A name that is not an own property reads what \<open>Object.prototype\<close> gives:
  the prototype itself for \<open>__proto__\<close>, a method for the name of a method (a function,
  outside the model), \<open>undefined\<close> otherwise. An assignment to an own property replaces its value. An assignment to the
  missing name \<open>__proto__\<close> calls the inherited setter and creates no property: a value
  that is neither an object nor \<open>null\<close> is ignored, and with an object or \<open>null\<close> the
  prototype is replaced, which the list of own properties cannot express. Any other
  assignment creates the property.
\<close>

definition Object_prototype_names :: "string list" where
  "Object_prototype_names =
     [''constructor'', ''__defineGetter__'', ''__defineSetter__'', ''hasOwnProperty'',
      ''__lookupGetter__'', ''__lookupSetter__'', ''isPrototypeOf'', ''propertyIsEnumerable'',
      ''toString'', ''valueOf'', ''toLocaleString'']"

definition is_object :: "jsval \<Rightarrow> bool" where
  "is_object v =
     (case v of Arr _ \<Rightarrow> True | Obj _ \<Rightarrow> True | ObjectPrototype \<Rightarrow> True | _ \<Rightarrow> False)"

definition inherited :: "string \<Rightarrow> error + jsval" where
  "inherited k =
     (if k = ''__proto__'' then Inr ObjectPrototype
      else if k \<in> set Object_prototype_names then Inl OutsideModel
      else Inr Undefined)"

definition js_get :: "(string \<times> jsval) list \<Rightarrow> string \<Rightarrow> error + jsval" where
  "js_get kvs k = (case map_of kvs k of None \<Rightarrow> inherited k | Some v \<Rightarrow> Inr v)"

definition js_assign ::
  "string \<Rightarrow> jsval \<Rightarrow> (string \<times> jsval) list \<Rightarrow> error + (string \<times> jsval) list" where
  "js_assign k v kvs =
     (if k \<in> set (map fst kvs) then Inr (js_replace k v kvs)
      else if k = ''__proto__'' then
        (if v = ObjectPrototype then Inr kvs
         else if is_object v \<or> v = Null then Inl OutsideModel
         else Inr kvs)
      else Inr (js_insert k v kvs))"

section \<open>The JSON built-ins\<close>

text \<open>
  \<open>JSON.stringify\<close> and \<open>JSON.parse\<close> on the values above. \<open>JSON.stringify\<close> returns
  \<open>undefined\<close> (\<open>None\<close>) on \<open>undefined\<close>, prints it inside an array as \<open>null\<close>, leaves
  out a property that holds it, prints \<open>Object.prototype\<close>, which has no enumerable
  property, as an empty object, and escapes the quote, the backslash and the control
  characters of a string. No value of the model has a callable \<open>toJSON\<close>. \<open>JSON.parse\<close> skips white space around
  the tokens, defines the properties of an object in the order of the text (a repeated
  name keeps its place and takes the last value), and throws \<open>SyntaxError\<close> on a malformed
  text; the recursion of the parser is bounded by the length of the text. On a numeral
  with a fraction, an exponent or a value that is no number of the model, and on an
  escape of a character above 255, the outcome is \<open>OutsideModel\<close>.
\<close>

definition int_digits :: "int \<Rightarrow> string" where
  "int_digits i = (if i < 0 then CHR ''-'' # nat_digits (nat (- i)) else nat_digits (nat i))"

definition hex_char :: "nat \<Rightarrow> char" where
  "hex_char d = (if d < 10 then char_of (48 + d) else char_of (87 + d))"

definition quote_char :: "char \<Rightarrow> string" where
  "quote_char c =
     (if c = CHR ''\"'' then [CHR 0x5C, CHR ''\"'']
      else if c = CHR 0x5C then [CHR 0x5C, CHR 0x5C]
      else if c = CHR 0x08 then [CHR 0x5C, CHR ''b'']
      else if c = CHR 0x09 then [CHR 0x5C, CHR ''t'']
      else if c = CHR 0x0A then [CHR 0x5C, CHR ''n'']
      else if c = CHR 0x0C then [CHR 0x5C, CHR ''f'']
      else if c = CHR 0x0D then [CHR 0x5C, CHR ''r'']
      else if of_char c < (32::nat) then
        [CHR 0x5C, CHR ''u'', CHR ''0'', CHR ''0'', hex_char (of_char c div 16), hex_char (of_char c mod 16)]
      else [c])"

definition quote :: "string \<Rightarrow> string" where
  "quote s = CHR ''\"'' # concat (map quote_char s) @ [CHR ''\"'']"

fun join_comma :: "string list \<Rightarrow> string" where
  "join_comma [] = []"
| "join_comma [x] = x"
| "join_comma (x # y # ys) = x @ CHR '','' # join_comma (y # ys)"

definition omitted :: "jsval \<Rightarrow> bool" where
  "omitted v \<longleftrightarrow> v = Undefined"

fun ser :: "jsval \<Rightarrow> string" where
  "ser Undefined = ''null''"
| "ser Null = ''null''"
| "ser (Bool b) = (if b then ''true'' else ''false'')"
| "ser (Num n) = int_digits (sint n)"
| "ser (Str s) = quote s"
| "ser (Arr xs) = CHR ''['' # join_comma (map ser xs) @ '']''"
| "ser (Obj kvs) =
     CHR ''{'' # join_comma (map (\<lambda>kv. quote (fst kv) @ CHR '':'' # ser (snd kv))
                               (filter (\<lambda>kv. \<not> omitted (snd kv)) kvs)) @ ''}''"
| "ser ObjectPrototype = ''{}''"

definition JSON_stringify :: "jsval \<Rightarrow> string option" where
  "JSON_stringify v = (if omitted v then None else Some (ser v))"

definition is_ws :: "char \<Rightarrow> bool" where
  "is_ws c \<longleftrightarrow> c = CHR '' '' \<or> c = CHR 0x09 \<or> c = CHR 0x0A \<or> c = CHR 0x0D"

definition skip_ws :: "string \<Rightarrow> string" where
  "skip_ws = dropWhile is_ws"

definition number_continues :: "string \<Rightarrow> bool" where
  "number_continues r \<longleftrightarrow>
     (case r of [] \<Rightarrow> False | c # _ \<Rightarrow> c = CHR ''.'' \<or> c = CHR ''e'' \<or> c = CHR ''E'')"

definition parse_number :: "string \<Rightarrow> error + jsval \<times> string" where
  "parse_number s =
     (let neg = (s \<noteq> [] \<and> hd s = CHR ''-'');
          s1 = (if neg then tl s else s);
          ds = takeWhile is_digit s1;
          r = dropWhile is_digit s1;
          i = (if neg then - int (digits_nat ds) else int (digits_nat ds))
      in if ds = [] then Inl SyntaxError
         else if hd ds = CHR ''0'' \<and> 1 < length ds then Inl SyntaxError
         else if number_continues r then Inl OutsideModel
         else if - (2 ^ 53) \<le> i \<and> i < 2 ^ 53 then Inr (Num (word_of_int i), r)
         else Inl OutsideModel)"

definition hex_val :: "char \<Rightarrow> nat option" where
  "hex_val c =
     (let n = (of_char c :: nat) in
      if 48 \<le> n \<and> n \<le> 57 then Some (n - 48)
      else if 97 \<le> n \<and> n \<le> 102 then Some (n - 87)
      else if 65 \<le> n \<and> n \<le> 70 then Some (n - 55)
      else None)"

definition unicode4 :: "char \<Rightarrow> char \<Rightarrow> char \<Rightarrow> char \<Rightarrow> error + char" where
  "unicode4 a b c d =
     (case (hex_val a, hex_val b, hex_val c, hex_val d) of
        (Some x, Some y, Some z, Some w) \<Rightarrow>
          (if x = 0 \<and> y = 0 then Inr (char_of (16 * z + w)) else Inl OutsideModel)
      | _ \<Rightarrow> Inl SyntaxError)"

definition unescape :: "char \<Rightarrow> char option" where
  "unescape e =
     (if e = CHR ''\"'' then Some (CHR ''\"'')
      else if e = CHR 0x5C then Some (CHR 0x5C)
      else if e = CHR ''/'' then Some (CHR ''/'')
      else if e = CHR ''b'' then Some (CHR 0x08)
      else if e = CHR ''f'' then Some (CHR 0x0C)
      else if e = CHR ''n'' then Some (CHR 0x0A)
      else if e = CHR ''r'' then Some (CHR 0x0D)
      else if e = CHR ''t'' then Some (CHR 0x09)
      else None)"

definition cons_fst :: "'a \<Rightarrow> error + 'a list \<times> 'b \<Rightarrow> error + 'a list \<times> 'b" where
  "cons_fst x r = (case r of Inl e \<Rightarrow> Inl e | Inr p \<Rightarrow> Inr (x # fst p, snd p))"

fun parse_chars :: "string \<Rightarrow> error + string \<times> string" where
  "parse_chars [] = Inl SyntaxError"
| "parse_chars (c # cs) =
     (if c = CHR ''\"'' then Inr ([], cs)
      else if c = CHR 0x5C then
        (case cs of
           [] \<Rightarrow> Inl SyntaxError
         | e # r \<Rightarrow>
             if e = CHR ''u'' then
               (case r of
                  h1 # h2 # h3 # h4 # r' \<Rightarrow>
                    (case unicode4 h1 h2 h3 h4 of
                       Inl err \<Rightarrow> Inl err
                     | Inr ch \<Rightarrow> cons_fst ch (parse_chars r'))
                | _ \<Rightarrow> Inl SyntaxError)
             else
               (case unescape e of
                  None \<Rightarrow> Inl SyntaxError
                | Some ch \<Rightarrow> cons_fst ch (parse_chars r)))
      else if of_char c < (32::nat) then Inl SyntaxError
      else cons_fst c (parse_chars cs))"

definition make_object :: "(string \<times> jsval) list \<Rightarrow> jsval" where
  "make_object members = Obj (foldl (\<lambda>acc kv. js_define (fst kv) (snd kv) acc) [] members)"

fun parse_value :: "nat \<Rightarrow> string \<Rightarrow> error + jsval \<times> string"
  and parse_elems :: "nat \<Rightarrow> string \<Rightarrow> error + jsval list \<times> string"
  and parse_members :: "nat \<Rightarrow> string \<Rightarrow> error + (string \<times> jsval) list \<times> string"
where
  "parse_value 0 s = Inl SyntaxError"
| "parse_value (Suc n) s =
     (case skip_ws s of
        [] \<Rightarrow> Inl SyntaxError
      | c # cs \<Rightarrow>
          if c = CHR ''n'' then (if take 3 cs = ''ull'' then Inr (Null, drop 3 cs) else Inl SyntaxError)
          else if c = CHR ''t'' then (if take 3 cs = ''rue'' then Inr (Bool True, drop 3 cs) else Inl SyntaxError)
          else if c = CHR ''f'' then (if take 4 cs = ''alse'' then Inr (Bool False, drop 4 cs) else Inl SyntaxError)
          else if c = CHR ''\"'' then
            (case parse_chars cs of Inl e \<Rightarrow> Inl e | Inr p \<Rightarrow> Inr (Str (fst p), snd p))
          else if c = CHR ''['' then
            (case skip_ws cs of
               [] \<Rightarrow> Inl SyntaxError
             | d # ds \<Rightarrow>
                 if d = CHR '']'' then Inr (Arr [], ds)
                 else (case parse_elems n cs of Inl e \<Rightarrow> Inl e | Inr p \<Rightarrow> Inr (Arr (fst p), snd p)))
          else if c = CHR ''{'' then
            (case skip_ws cs of
               [] \<Rightarrow> Inl SyntaxError
             | d # ds \<Rightarrow>
                 if d = CHR ''}'' then Inr (Obj [], ds)
                 else (case parse_members n cs of
                         Inl e \<Rightarrow> Inl e
                       | Inr p \<Rightarrow> Inr (make_object (fst p), snd p)))
          else if c = CHR ''-'' \<or> is_digit c then parse_number (c # cs)
          else Inl SyntaxError)"
| "parse_elems 0 s = Inl SyntaxError"
| "parse_elems (Suc n) s =
     (case parse_value n s of
        Inl e \<Rightarrow> Inl e
      | Inr (v, r) \<Rightarrow>
          (case skip_ws r of
             [] \<Rightarrow> Inl SyntaxError
           | c # cs \<Rightarrow>
               if c = CHR '','' then cons_fst v (parse_elems n cs)
               else if c = CHR '']'' then Inr ([v], cs)
               else Inl SyntaxError))"
| "parse_members 0 s = Inl SyntaxError"
| "parse_members (Suc n) s =
     (case skip_ws s of
        [] \<Rightarrow> Inl SyntaxError
      | q # qs \<Rightarrow>
          if q \<noteq> CHR ''\"'' then Inl SyntaxError
          else
            (case parse_chars qs of
               Inl e \<Rightarrow> Inl e
             | Inr (k, r) \<Rightarrow>
                 (case skip_ws r of
                    [] \<Rightarrow> Inl SyntaxError
                  | c # cs \<Rightarrow>
                      if c \<noteq> CHR '':'' then Inl SyntaxError
                      else
                        (case parse_value n cs of
                           Inl e \<Rightarrow> Inl e
                         | Inr (v, r2) \<Rightarrow>
                             (case skip_ws r2 of
                                [] \<Rightarrow> Inl SyntaxError
                              | d # ds \<Rightarrow>
                                  if d = CHR '','' then cons_fst (k, v) (parse_members n ds)
                                  else if d = CHR ''}'' then Inr ([(k, v)], ds)
                                  else Inl SyntaxError)))))"

definition JSON_parse :: "string \<Rightarrow> error + jsval" where
  "JSON_parse s =
     (case parse_value (Suc (length s)) s of
        Inl e \<Rightarrow> Inl e
      | Inr (v, r) \<Rightarrow> if skip_ws r = [] then Inr v else Inl SyntaxError)"

section \<open>The browser globals and the effect type\<close>

text \<open>
  The part of \<open>globalThis\<close> the storage classes touch: whether the platform is a web
  platform, the two string stores \<open>localStorage\<close> and \<open>sessionStorage\<close>, the plain
  objects allocated for the in-memory store (a heap, since \<open>WebWindowStore\<close> keeps a
  reference to one while \<open>clear\<close> replaces the global one), the global property
  \<open>_webWindowStoreAlmight\<close>, the parameters of the current URL and the calls received
  by the origin-frame communicators.
\<close>

text \<open>
  A plain object created by \<open>{}\<close>: its own properties and its prototype, which is
  \<open>Object.prototype\<close> until an assignment to \<open>__proto__\<close> replaces it by \<open>null\<close> or by
  another object.
\<close>

datatype proto = ObjectProto | NullProto | ValueProto jsval

record js_object =
  own :: "string \<rightharpoonup> jsval"
  proto :: proto

definition empty_object :: js_object where
  "empty_object = \<lparr>own = Map.empty, proto = ObjectProto\<rparr>"

datatype communicator = Communicator string

datatype event = FrameClosed communicator

record world =
  isWebPlatform :: bool
  localStorage :: "string \<rightharpoonup> string"
  sessionStorage :: "string \<rightharpoonup> string"
  heap :: "nat \<rightharpoonup> js_object"
  next_addr :: nat
  webWindowStoreAlmight :: "nat option"
  location_search :: "(string \<times> string) list"
  events :: "event list"

text \<open>
  An operation takes the globals and returns its outcome (\<open>Inl\<close> the exception thrown or
  the rejection of its promise) together with the globals as it left them. A call of an
  \<open>async\<close> method that is awaited is run to completion at the place of the call. A call
  that is not awaited runs up to its first \<open>await\<close>, where the caller gets control back:
  \<open>not_awaited\<close> is for a method whose body has no \<open>await\<close>, so that the whole body
  runs at the call, and a method that does suspend has a definition of its own for the
  part that runs before the suspension. What the job queue does with a suspended call
  after the caller has returned is not part of the caller.
\<close>

type_synonym 'a io = "world \<Rightarrow> (error + 'a) \<times> world"

definition return :: "'a \<Rightarrow> 'a io" where
  "return x = (\<lambda>w. (Inr x, w))"

definition throw :: "error \<Rightarrow> 'a io" where
  "throw e = (\<lambda>w. (Inl e, w))"

definition lift :: "error + 'a \<Rightarrow> 'a io" where
  "lift r = (\<lambda>w. (r, w))"

definition bind :: "'a io \<Rightarrow> ('a \<Rightarrow> 'b io) \<Rightarrow> 'b io" where
  "bind m f = (\<lambda>w. case m w of (Inl e, w') \<Rightarrow> (Inl e, w') | (Inr x, w') \<Rightarrow> f x w')"

definition catch :: "'a io \<Rightarrow> (error \<Rightarrow> 'a io) \<Rightarrow> 'a io" where
  "catch m h =
     (\<lambda>w. case m w of
            (Inl e, w') \<Rightarrow> if e = OutsideModel then (Inl e, w') else h e w'
          | (Inr x, w') \<Rightarrow> (Inr x, w'))"

text \<open>
  A call to an \<open>async\<close> method without \<open>await\<close> in its body, whose promise is neither
  awaited nor returned: its effects happen at the call, its rejection is observed by
  nobody.
\<close>

definition not_awaited :: "'a io \<Rightarrow> unit io" where
  "not_awaited m =
     (\<lambda>w. if fst (m w) = Inl OutsideModel then (Inl OutsideModel, snd (m w))
          else (Inr (), snd (m w)))"

fun for_each :: "('a \<Rightarrow> unit io) \<Rightarrow> 'a list \<Rightarrow> unit io" where
  "for_each f [] = return ()"
| "for_each f (x # xs) = bind (f x) (\<lambda>_. for_each f xs)"

section \<open>The web storage classes\<close>

text \<open>
  \<open>BaseWebStorage\<close> and its three subclasses. The field \<open>storage\<close> is \<open>undefined\<close>
  until \<open>connect\<close>, then a reference to \<open>globalThis.localStorage\<close>,
  \<open>globalThis.sessionStorage\<close> or the global in-memory object, and \<open>null\<close> after
  \<open>disconnect\<close>. The two callbacks are the caller's; \<open>Inl\<close> is a callback that throws.
\<close>

datatype storage_class = WebLocalStorage | WebSessionStorage | WebWindowStore

datatype storage_ref = LocalRef | SessionRef | ObjRef nat

datatype 'a nullable = IsUndefined | IsNull | Ref 'a

record web_storage =
  cls :: storage_class
  storage :: "storage_ref nullable"
  prefix :: "string option"
  onConnectCallback :: "unit io"
  beforeDisconnectCallback :: "unit io"

definition isStorageDefined :: "web_storage \<Rightarrow> bool" where
  "isStorageDefined st \<longleftrightarrow> storage st \<noteq> IsNull \<and> storage st \<noteq> IsUndefined"

definition pingValue :: string where
  "pingValue = ''__test__ping__''"

definition pingKey :: string where
  "pingKey = ''__ping__''"

definition serialize :: "jsval \<Rightarrow> string option" where
  "serialize v = JSON_stringify v"

definition deserialize :: "string \<Rightarrow> error + jsval" where
  "deserialize s = JSON_parse s"

definition getPrefixedName :: "web_storage \<Rightarrow> string \<Rightarrow> string" where
  "getPrefixedName st name = (case prefix st of None \<Rightarrow> name | Some p \<Rightarrow> p @ ''__'' @ name)"

text \<open>
  The \<open>Storage\<close> interface of the browser, on the object a reference denotes. A method call
  on \<open>undefined\<close>, on \<open>null\<close>, or on a plain object that has no such method throws
  \<open>TypeError\<close>. \<open>Storage.setItem\<close> converts its argument to a string, so \<open>undefined\<close>
  is stored as the text \<open>undefined\<close>. The quota of a store is not modelled: \<open>setItem\<close>
  always finds room.
\<close>

definition naive_setItem :: "storage_ref nullable \<Rightarrow> string \<Rightarrow> string option \<Rightarrow> unit io" where
  "naive_setItem r k v =
     (let s = (case v of None \<Rightarrow> ''undefined'' | Some t \<Rightarrow> t) in
      case r of
        Ref LocalRef \<Rightarrow> (\<lambda>w. (Inr (), w\<lparr>localStorage := (localStorage w)(k \<mapsto> s)\<rparr>))
      | Ref SessionRef \<Rightarrow> (\<lambda>w. (Inr (), w\<lparr>sessionStorage := (sessionStorage w)(k \<mapsto> s)\<rparr>))
      | _ \<Rightarrow> throw TypeError)"

definition naive_getItem :: "storage_ref nullable \<Rightarrow> string \<Rightarrow> (string option) io" where
  "naive_getItem r k =
     (case r of
        Ref LocalRef \<Rightarrow> (\<lambda>w. (Inr (localStorage w k), w))
      | Ref SessionRef \<Rightarrow> (\<lambda>w. (Inr (sessionStorage w k), w))
      | _ \<Rightarrow> throw TypeError)"

definition naive_removeItem :: "storage_ref nullable \<Rightarrow> string \<Rightarrow> unit io" where
  "naive_removeItem r k =
     (case r of
        Ref LocalRef \<Rightarrow> (\<lambda>w. (Inr (), w\<lparr>localStorage := (localStorage w)(k := None)\<rparr>))
      | Ref SessionRef \<Rightarrow> (\<lambda>w. (Inr (), w\<lparr>sessionStorage := (sessionStorage w)(k := None)\<rparr>))
      | _ \<Rightarrow> throw TypeError)"

definition naive_clear :: "storage_ref nullable \<Rightarrow> unit io" where
  "naive_clear r =
     (case r of
        Ref LocalRef \<Rightarrow> (\<lambda>w. (Inr (), w\<lparr>localStorage := Map.empty\<rparr>))
      | Ref SessionRef \<Rightarrow> (\<lambda>w. (Inr (), w\<lparr>sessionStorage := Map.empty\<rparr>))
      | _ \<Rightarrow> throw TypeError)"

text \<open>
  Property access on a plain object. A read finds an own property, or else what the
  prototype gives: under \<open>Object.prototype\<close> the name \<open>__proto__\<close> reads the prototype
  itself, the names of the methods of \<open>Object.prototype\<close> read those methods (functions,
  outside the model), and any other name reads \<open>undefined\<close>; under the prototype \<open>null\<close> every missing name reads
  \<open>undefined\<close>. An assignment updates an own property, or else creates one, except for
  the name \<open>__proto__\<close> under \<open>Object.prototype\<close>: that assignment calls the inherited
  setter, which replaces the prototype when the value is an object or \<open>null\<close> and does
  nothing otherwise. Once the prototype is another object, the access to a name that is
  not an own property depends on that object and is outside the model.
\<close>

definition read_property :: "js_object \<Rightarrow> string \<Rightarrow> error + jsval" where
  "read_property obj k =
     (case own obj k of
        Some v \<Rightarrow> Inr v
      | None \<Rightarrow>
          (case proto obj of
             ObjectProto \<Rightarrow> inherited k
           | NullProto \<Rightarrow> Inr Undefined
           | ValueProto p \<Rightarrow> Inl OutsideModel))"

definition write_property :: "js_object \<Rightarrow> string \<Rightarrow> jsval \<Rightarrow> error + js_object" where
  "write_property obj k v =
     (case own obj k of
        Some _ \<Rightarrow> Inr (obj\<lparr>own := (own obj)(k \<mapsto> v)\<rparr>)
      | None \<Rightarrow>
          (case proto obj of
             ObjectProto \<Rightarrow>
               if k = ''__proto__'' then
                 (if v = ObjectPrototype then Inr obj
                  else if is_object v then Inr (obj\<lparr>proto := ValueProto v\<rparr>)
                  else if v = Null then Inr (obj\<lparr>proto := NullProto\<rparr>)
                  else Inr obj)
               else Inr (obj\<lparr>own := (own obj)(k \<mapsto> v)\<rparr>)
           | NullProto \<Rightarrow> Inr (obj\<lparr>own := (own obj)(k \<mapsto> v)\<rparr>)
           | ValueProto p \<Rightarrow> Inl OutsideModel))"

text \<open>
  The three accesses of \<open>WebWindowStore\<close> to the object its field \<open>storage\<close> refers to;
  any access through \<open>undefined\<close> or \<open>null\<close> throws.
\<close>

definition obj_set :: "storage_ref nullable \<Rightarrow> string \<Rightarrow> jsval \<Rightarrow> unit io" where
  "obj_set r k v =
     (case r of
        Ref (ObjRef a) \<Rightarrow>
          (\<lambda>w. case heap w a of
                 None \<Rightarrow> (Inl TypeError, w)
               | Some obj \<Rightarrow>
                   (case write_property obj k v of
                      Inl e \<Rightarrow> (Inl e, w)
                    | Inr obj' \<Rightarrow> (Inr (), w\<lparr>heap := (heap w)(a \<mapsto> obj')\<rparr>)))
      | _ \<Rightarrow> throw TypeError)"

definition obj_get :: "storage_ref nullable \<Rightarrow> string \<Rightarrow> jsval io" where
  "obj_get r k =
     (case r of
        Ref (ObjRef a) \<Rightarrow>
          (\<lambda>w. case heap w a of
                 None \<Rightarrow> (Inl TypeError, w)
               | Some obj \<Rightarrow> (read_property obj k, w))
      | _ \<Rightarrow> throw TypeError)"

definition obj_delete :: "storage_ref nullable \<Rightarrow> string \<Rightarrow> unit io" where
  "obj_delete r k =
     (case r of
        Ref (ObjRef a) \<Rightarrow>
          (\<lambda>w. case heap w a of
                 None \<Rightarrow> (Inl TypeError, w)
               | Some obj \<Rightarrow> (Inr (), w\<lparr>heap := (heap w)(a \<mapsto> obj\<lparr>own := (own obj)(k := None)\<rparr>)\<rparr>))
      | _ \<Rightarrow> throw TypeError)"

definition setItem :: "web_storage \<Rightarrow> string \<Rightarrow> jsval \<Rightarrow> unit io" where
  "setItem st key v =
     (if cls st = WebWindowStore then obj_set (storage st) key v
      else naive_setItem (storage st) (getPrefixedName st key) (serialize v))"

definition getItem :: "web_storage \<Rightarrow> string \<Rightarrow> jsval io" where
  "getItem st key =
     (if cls st = WebWindowStore then obj_get (storage st) key
      else bind (naive_getItem (storage st) (getPrefixedName st key))
             (\<lambda>v. case v of
                    None \<Rightarrow> return Null
                  | Some s \<Rightarrow> (case deserialize s of Inl e \<Rightarrow> throw e | Inr x \<Rightarrow> return x)))"

definition hasKey :: "web_storage \<Rightarrow> string \<Rightarrow> bool io" where
  "hasKey st key = bind (getItem st key) (\<lambda>v. return (v \<noteq> Null))"

definition removeItem :: "web_storage \<Rightarrow> string \<Rightarrow> unit io" where
  "removeItem st key =
     (if cls st = WebWindowStore then obj_delete (storage st) key
      else naive_removeItem (storage st) (getPrefixedName st key))"

definition clear :: "web_storage \<Rightarrow> unit io" where
  "clear st =
     (if cls st = WebWindowStore then
        (\<lambda>w. (Inr (), w\<lparr>heap := (heap w)(next_addr w \<mapsto> empty_object),
                          webWindowStoreAlmight := Some (next_addr w),
                          next_addr := Suc (next_addr w)\<rparr>))
      else naive_clear (storage st))"

definition isConnected :: "web_storage \<Rightarrow> bool io" where
  "isConnected st =
     (if cls st = WebWindowStore then
        (\<lambda>w. (Inr (storage st \<noteq> IsNull \<and> webWindowStoreAlmight w \<noteq> None), w))
      else if isStorageDefined st then
        bind (setItem st pingKey (Str pingValue)) (\<lambda>_.
        bind (getItem st pingKey) (\<lambda>v.
        bind (removeItem st pingKey) (\<lambda>_.
        return (v = Str pingValue))))
      else return False)"

text \<open>
  \<open>isConnected\<close> in two parts, for a call that nobody awaits: what runs at the call, up
  to the first \<open>await\<close>, and what runs when the call is resumed. \<open>WebWindowStore\<close> has no
  \<open>await\<close>: its answer is settled at the call. The other classes suspend after writing
  the ping key.
\<close>

datatype suspended = Settled "error + bool" | AfterPing

definition isConnected_start :: "web_storage \<Rightarrow> world \<Rightarrow> suspended \<times> world" where
  "isConnected_start st w =
     (if cls st = WebWindowStore then
        (Settled (Inr (storage st \<noteq> IsNull \<and> webWindowStoreAlmight w \<noteq> None)), w)
      else if isStorageDefined st then
        (case setItem st pingKey (Str pingValue) w of
           (Inl e, w') \<Rightarrow> (Settled (Inl e), w')
         | (Inr _, w') \<Rightarrow> (AfterPing, w'))
      else (Settled (Inr False), w))"

definition isConnected_resume :: "web_storage \<Rightarrow> suspended \<Rightarrow> bool io" where
  "isConnected_resume st s =
     (case s of
        Settled r \<Rightarrow> (\<lambda>w. (r, w))
      | AfterPing \<Rightarrow>
          bind (getItem st pingKey) (\<lambda>v.
          bind (removeItem st pingKey) (\<lambda>_.
          return (v = Str pingValue))))"

definition class_name :: "storage_class \<Rightarrow> string" where
  "class_name c =
     (case c of
        WebLocalStorage \<Rightarrow> ''WebLocalStorage''
      | WebSessionStorage \<Rightarrow> ''WebSessionStorage''
      | WebWindowStore \<Rightarrow> ''WebWindowStore'')"

definition checkPlatform :: "web_storage \<Rightarrow> unit io" where
  "checkPlatform st =
     (\<lambda>w. if \<not> isWebPlatform w
           then (Inl (UnsuitablePlatformException (class_name (cls st) @ '' only supports web platform'')), w)
           else (Inr (), w))"

text \<open>
  \<open>connect\<close> and \<open>disconnect\<close> assign the field \<open>storage\<close>, so they also return the
  storage object as they left it.
\<close>

definition connect :: "web_storage \<Rightarrow> world \<Rightarrow> (error + unit) \<times> web_storage \<times> world" where
  "connect st w =
     (case checkPlatform st w of
        (Inl e, w1) \<Rightarrow> (Inl e, st, w1)
      | (Inr _, w1) \<Rightarrow>
          (let w2 = (if cls st = WebWindowStore \<and> webWindowStoreAlmight w1 = None
                     then w1\<lparr>heap := (heap w1)(next_addr w1 \<mapsto> empty_object),
                             webWindowStoreAlmight := Some (next_addr w1),
                             next_addr := Suc (next_addr w1)\<rparr>
                     else w1);
               st' = st\<lparr>storage :=
                      (case cls st of
                         WebLocalStorage \<Rightarrow> Ref LocalRef
                       | WebSessionStorage \<Rightarrow> Ref SessionRef
                       | WebWindowStore \<Rightarrow>
                           (case webWindowStoreAlmight w2 of
                              None \<Rightarrow> IsUndefined
                            | Some a \<Rightarrow> Ref (ObjRef a)))\<rparr>
           in case onConnectCallback st w2 of (r, w3) \<Rightarrow> (r, st', w3)))"

definition disconnect :: "web_storage \<Rightarrow> world \<Rightarrow> (error + unit) \<times> web_storage \<times> world" where
  "disconnect st w =
     (case bind (beforeDisconnectCallback st) (\<lambda>_. clear st) w of
        (Inl e, w') \<Rightarrow> (Inl e, st, w')
      | (Inr _, w') \<Rightarrow> (Inr (), st\<lparr>storage := IsNull\<rparr>, w'))"

text \<open>
  The constructor: the default callbacks do nothing, the options replace them, and on a
  web platform \<open>connect\<close> is started without being awaited, so a rejection is dropped.
  For \<open>WebWindowStore\<close> the base constructor runs before the field \<open>keyName\<close> of the
  subclass is initialised: \<open>connect\<close> then assigns to \<open>globalThis[undefined]\<close>, which
  throws in strict code before \<open>storage\<close> is assigned, so the object stays unconnected
  until \<open>connect\<close> is called on it.
\<close>

record storage_options =
  opt_onConnectCallback :: "unit io option"
  opt_beforeDisconnectCallback :: "unit io option"

definition new_web_storage ::
  "storage_class \<Rightarrow> storage_options option \<Rightarrow> world \<Rightarrow> web_storage \<times> world" where
  "new_web_storage c options w =
     (let st = \<lparr>cls = c, storage = IsUndefined, prefix = None,
                onConnectCallback =
                  (case options of None \<Rightarrow> return ()
                   | Some opts \<Rightarrow> (case opt_onConnectCallback opts of None \<Rightarrow> return () | Some f \<Rightarrow> f)),
                beforeDisconnectCallback =
                  (case options of None \<Rightarrow> return ()
                   | Some opts \<Rightarrow> (case opt_beforeDisconnectCallback opts of None \<Rightarrow> return () | Some f \<Rightarrow> f))\<rparr>
      in if isWebPlatform w \<and> c \<noteq> WebWindowStore
         then (case connect st w of (_, st', w') \<Rightarrow> (st', w'))
         else (st, w))"

section \<open>The chain adapter\<close>

text \<open>
  \<open>BaseChainAdapter\<close> holds a channel, which is \<open>undefined\<close> when none is attached. The
  channel and the protocol definition are external objects: each is the record of what its
  methods return.
\<close>

record channel =
  ch_isConnected :: bool
  ch_connect :: "jsval \<Rightarrow> error + unit"
  ch_request :: "jsval \<Rightarrow> error + jsval"
  ch_checkSession :: "error + bool \<times> jsval"
  ch_checkConnection :: "error + bool"
  ch_on :: "string \<Rightarrow> error + unit"

record protocol_definition =
  bindAdapter :: "error + unit"

record adapter =
  adapter_class :: string
  adapter_channel :: "channel option"
  adapter_protocol :: "protocol_definition option"

record adapter_options =
  opt_channel :: "channel option"
  opt_protocolDefination :: "protocol_definition option"

definition adapter_isConnected :: "adapter \<Rightarrow> bool" where
  "adapter_isConnected a = (case adapter_channel a of None \<Rightarrow> False | Some c \<Rightarrow> ch_isConnected c)"

definition checkChannel :: "adapter \<Rightarrow> error + unit" where
  "checkChannel a =
     (if adapter_channel a = None then Inl (ChannelIsNotDefined (adapter_class a)) else Inr ())"

definition bindProtocol :: "adapter \<Rightarrow> protocol_definition \<Rightarrow> error + adapter" where
  "bindProtocol a p =
     (case bindAdapter p of Inl e \<Rightarrow> Inl e | Inr _ \<Rightarrow> Inr (a\<lparr>adapter_protocol := Some p\<rparr>))"

definition new_adapter :: "string \<Rightarrow> adapter_options \<Rightarrow> error + adapter" where
  "new_adapter name options =
     (let a = \<lparr>adapter_class = name, adapter_channel = opt_channel options, adapter_protocol = None\<rparr> in
      case (case opt_protocolDefination options of None \<Rightarrow> Inr a | Some p \<Rightarrow> bindProtocol a p) of
        Inl e \<Rightarrow> Inl e
      | Inr a' \<Rightarrow> (case checkChannel a' of Inl e \<Rightarrow> Inl e | Inr _ \<Rightarrow> Inr a'))"

definition adapter_checkSession :: "adapter \<Rightarrow> error + bool \<times> jsval" where
  "adapter_checkSession a =
     (case checkChannel a of
        Inl e \<Rightarrow> Inl e
      | Inr _ \<Rightarrow> (case adapter_channel a of None \<Rightarrow> Inl TypeError | Some c \<Rightarrow> ch_checkSession c))"

definition adapter_connect :: "adapter \<Rightarrow> jsval \<Rightarrow> error + unit" where
  "adapter_connect a options =
     (case checkChannel a of
        Inl e \<Rightarrow> Inl e
      | Inr _ \<Rightarrow> (case adapter_channel a of None \<Rightarrow> Inl TypeError | Some c \<Rightarrow> ch_connect c options))"

definition adapter_request :: "adapter \<Rightarrow> jsval \<Rightarrow> error + jsval" where
  "adapter_request a data =
     (case checkChannel a of
        Inl e \<Rightarrow> Inl e
      | Inr _ \<Rightarrow> (case adapter_channel a of None \<Rightarrow> Inl TypeError | Some c \<Rightarrow> ch_request c data))"

definition adapter_checkConnection :: "adapter \<Rightarrow> error + bool" where
  "adapter_checkConnection a =
     (case adapter_channel a of None \<Rightarrow> Inl TypeError | Some c \<Rightarrow> ch_checkConnection c)"

definition adapter_on :: "adapter \<Rightarrow> string \<Rightarrow> error + unit" where
  "adapter_on a event =
     (if adapter_channel a = None then Inl (ChannelIsNotDefined (adapter_class a))
      else (case adapter_channel a of None \<Rightarrow> Inl TypeError | Some c \<Rightarrow> ch_on c event))"

section \<open>The authentication delegate\<close>

text \<open>
  The identity resolvers, the origin-frame communicators, the backend and
  \<open>decodeURIComponent\<close> are external: a resolver is the record of what its two methods
  do, the two static maps of the class are a parameter (\<open>m v\<close> is the result of indexing
  the map with the value \<open>v\<close>, \<open>None\<close> for \<open>undefined\<close>), and the backend is the record
  of its answers.
\<close>

datatype delegate_class =
  AuthenticationDelegate | Web3AuthenticationDelegate | Web2AuthenticationDelegate

record resolver =
  resolver_name :: string
  captureUri :: "jsval \<Rightarrow> unit io"
  getUserRegistrationArguments :: "jsval io"

record registry =
  identityResolverMap :: "jsval \<Rightarrow> resolver option"
  respondStrategyMap :: "jsval \<Rightarrow> communicator option"

record externals =
  project_ident :: "jsval \<Rightarrow> error + bool"
  post_token :: "jsval \<Rightarrow> (string \<times> jsval) list \<Rightarrow> error + jsval"
  decodeURIComponent :: "string \<Rightarrow> error + string"

record delegate =
  dclass :: delegate_class
  respondStrategy :: jsval
  identityResolver :: "resolver option"
  respondFrame :: "communicator option"
  state :: "(string \<times> jsval) list"
  dstorage :: "web_storage option"

record delegate_options =
  opt_storage :: "web_storage option"
  opt_respondFrame :: "communicator option"
  opt_respondStrategy :: jsval

definition frozenStateKey :: string where
  "frozenStateKey = ''frozen_auth_delegate''"

definition AllowedQueryParams :: "string list" where
  "AllowedQueryParams =
     [''project_identifier'', ''chainId'', ''public_key'', ''provider'', ''state'', ''verifiers'',
      ''code_challenge'', ''error'', ''error_code'', ''connector_type'', ''token'',
      ''respond_strategy'', ''origin_identifier'', ''target_origin'', ''code'', ''cause_event'',
      ''message_sign_required'']"

definition verificationExcludedStates :: "string list" where
  "verificationExcludedStates = [''code'', ''error'', ''error_code'']"

text \<open>\<open>Object.entries\<close>: the own enumerable properties, in the order of enumeration.\<close>

definition Object_entries :: "jsval \<Rightarrow> error + (string \<times> jsval) list" where
  "Object_entries v =
     (case v of
        Undefined \<Rightarrow> Inl TypeError
      | Null \<Rightarrow> Inl TypeError
      | Obj kvs \<Rightarrow> Inr kvs
      | Arr xs \<Rightarrow> Inr (map (\<lambda>i. (nat_digits i, xs ! i)) [0..<length xs])
      | Str s \<Rightarrow> Inr (map (\<lambda>i. (nat_digits i, Str [s ! i])) [0..<length s])
      | _ \<Rightarrow> Inr [])"

text \<open>
  A method call on the field \<open>storage\<close> of the delegate, which is \<open>undefined\<close> when the
  constructor got no options.
\<close>

definition on_storage :: "delegate \<Rightarrow> (web_storage \<Rightarrow> 'a io) \<Rightarrow> 'a io" where
  "on_storage d f = (case dstorage d of None \<Rightarrow> throw TypeError | Some st \<Rightarrow> f st)"

definition new_delegate ::
  "delegate_class \<Rightarrow> delegate_options option \<Rightarrow> world \<Rightarrow> delegate \<times> world" where
  "new_delegate c options w =
     (let dw =
        (case options of
           None \<Rightarrow>
             (\<lparr>dclass = c, respondStrategy = Undefined, identityResolver = None,
               respondFrame = None, state = [], dstorage = None\<rparr>, w)
         | Some opts \<Rightarrow>
             (let sw = (case opt_storage opts of
                          Some st \<Rightarrow> (st, w)
                        | None \<Rightarrow> new_web_storage WebLocalStorage None w)
              in (\<lparr>dclass = c, respondStrategy = opt_respondStrategy opts, identityResolver = None,
                   respondFrame = opt_respondFrame opts, state = [], dstorage = Some (fst sw)\<rparr>,
                  snd sw)))
      in case dstorage (fst dw) of
           None \<Rightarrow> dw
         | Some st \<Rightarrow>
             (case connect st (snd dw) of (_, st', w') \<Rightarrow> ((fst dw)\<lparr>dstorage := Some st'\<rparr>, w')))"

definition frame_close :: "communicator \<Rightarrow> unit io" where
  "frame_close f = (\<lambda>w. (Inr (), w\<lparr>events := events w @ [FrameClosed f]\<rparr>))"

definition clean :: "delegate \<Rightarrow> unit io" where
  "clean d =
     bind (on_storage d isConnected) (\<lambda>c.
       if c then for_each (\<lambda>query. on_storage d (\<lambda>st. removeItem st query)) AllowedQueryParams
       else return ())"

definition close :: "delegate \<Rightarrow> unit io" where
  "close d =
     bind (clean d) (\<lambda>_.
     bind (on_storage d (\<lambda>st. hasKey st ''walletconnect'')) (\<lambda>h.
     bind (if h then on_storage d (\<lambda>st. removeItem st ''walletconnect'') else return ()) (\<lambda>_.
       case respondFrame d of None \<Rightarrow> return () | Some f \<Rightarrow> frame_close f)))"

definition getTokenHeaders :: "jsval \<Rightarrow> jsval \<Rightarrow> (string \<times> jsval) list" where
  "getTokenHeaders projectIdentifier userIdentifier =
     (if projectIdentifier \<noteq> Undefined then [(''X-PROJECT-IDENT'', projectIdentifier)] else []) @
     (if userIdentifier \<noteq> Undefined then [(''X-USER-IDENT'', userIdentifier)] else [])"

definition setStates :: "delegate \<Rightarrow> (string \<times> jsval) list \<Rightarrow> unit io" where
  "setStates d data =
     bind (on_storage d isConnected) (\<lambda>c.
       if c then for_each (\<lambda>kv. on_storage d (\<lambda>st. setItem st (fst kv) (snd kv))) data
       else return ())"

text \<open>
  \<open>setStates\<close> when nobody awaits it: the call runs up to the first \<open>await\<close> of
  \<open>isConnected\<close> and is suspended there, with the properties of \<open>data\<close> still to be
  read; \<open>setStates_resume\<close> is the rest of the call, which reads them when it runs.
\<close>

definition setStates_start :: "delegate \<Rightarrow> world \<Rightarrow> suspended \<times> world" where
  "setStates_start d w =
     (case dstorage d of
        None \<Rightarrow> (Settled (Inl TypeError), w)
      | Some st \<Rightarrow> isConnected_start st w)"

definition setStates_resume :: "delegate \<Rightarrow> (string \<times> jsval) list \<Rightarrow> suspended \<Rightarrow> unit io" where
  "setStates_resume d data s =
     bind (on_storage d (\<lambda>st. isConnected_resume st s)) (\<lambda>c.
       if c then for_each (\<lambda>kv. on_storage d (\<lambda>st. setItem st (fst kv) (snd kv))) data
       else return ())"

text \<open>
  One round of the loop of \<open>init\<close>. Neither \<open>storage.setItem\<close> nor \<open>setStates\<close> is
  awaited there: \<open>setItem\<close> has no \<open>await\<close> and runs at the call, \<open>setStates\<close> runs up
  to its suspension, and \<open>init\<close> goes on. Only the access to an undefined \<open>storage\<close>
  throws out of \<open>init\<close>.
\<close>

definition init_entry ::
  "registry \<Rightarrow> delegate \<Rightarrow> string \<times> jsval \<Rightarrow> world \<Rightarrow> (error + unit) \<times> delegate \<times> world" where
  "init_entry reg d kv w =
     (let key = fst kv; v = snd kv;
          routed =
            (if key = ''provider'' then
               Inr (d\<lparr>identityResolver :=
                        (if identityResolver d = None then identityResolverMap reg v
                         else identityResolver d)\<rparr>, w)
             else if key = ''respond_strategy'' then
               (let d1 = d\<lparr>respondStrategy :=
                             (if respondStrategy d = Undefined then v else respondStrategy d)\<rparr>
                in Inr (d1\<lparr>respondFrame :=
                             (if respondFrame d1 = None then respondStrategyMap reg (respondStrategy d1)
                              else respondFrame d1)\<rparr>, w))
             else
               (case dstorage d of
                  None \<Rightarrow> Inl TypeError
                | Some st \<Rightarrow>
                    (case not_awaited (setItem st key v) w of
                       (Inl e, w1) \<Rightarrow> Inl e
                     | (Inr _, w1) \<Rightarrow> Inr (d, w1))))
      in case routed of
           Inl e \<Rightarrow> (Inl e, d, w)
         | Inr (d1, w1) \<Rightarrow>
             (case js_assign key v (state d1) of
                Inl e \<Rightarrow> (Inl e, d1, w1)
              | Inr kvs \<Rightarrow>
                  (let d2 = d1\<lparr>state := kvs\<rparr>
                   in (Inr (), d2, snd (setStates_start d2 w1)))))"

fun init_loop ::
  "registry \<Rightarrow> delegate \<Rightarrow> (string \<times> jsval) list \<Rightarrow> world \<Rightarrow> (error + unit) \<times> delegate \<times> world" where
  "init_loop reg d [] w = (Inr (), d, w)"
| "init_loop reg d (kv # kvs) w =
     (case init_entry reg d kv w of
        (Inl e, d', w') \<Rightarrow> (Inl e, d', w')
      | (Inr _, d', w') \<Rightarrow> init_loop reg d' kvs w')"

definition init ::
  "registry \<Rightarrow> delegate \<Rightarrow> jsval \<Rightarrow> world \<Rightarrow> (error + unit) \<times> delegate \<times> world" where
  "init reg d args w =
     (case Object_entries args of
        Inl e \<Rightarrow> (Inl e, d, w)
      | Inr kvs \<Rightarrow> init_loop reg d kvs w)"

definition registerUser :: "externals \<Rightarrow> jsval \<Rightarrow> (string \<times> jsval) list \<Rightarrow> jsval io" where
  "registerUser ext data tokens =
     bind (lift (js_get tokens ''project_identifier'')) (\<lambda>projectIdentifier.
     bind (lift (js_get tokens ''token'')) (\<lambda>userIdentifier.
       lift (post_token ext data (getTokenHeaders projectIdentifier userIdentifier))))"

definition handleUserRegistration :: "externals \<Rightarrow> delegate \<Rightarrow> jsval io" where
  "handleUserRegistration ext d =
     bind (on_storage d (\<lambda>st. hasKey st ''project_identifier'')) (\<lambda>h.
       if \<not> h then throw (Error ''Project Identifier is not provided'')
       else
         bind (case identityResolver d of
                 None \<Rightarrow> return Undefined
               | Some r \<Rightarrow> getUserRegistrationArguments r) (\<lambda>data.
         bind (on_storage d (\<lambda>st. getItem st ''project_identifier'')) (\<lambda>pid.
         bind (on_storage d (\<lambda>st. getItem st ''token'')) (\<lambda>userIdentifier.
           registerUser ext data
             (if userIdentifier \<noteq> Null
              then js_define ''token'' userIdentifier [(''project_identifier'', pid)]
              else [(''project_identifier'', pid)])))))"

definition verifyProject :: "externals \<Rightarrow> jsval \<Rightarrow> bool io" where
  "verifyProject ext projectIdentifier = (\<lambda>w. (project_ident ext projectIdentifier, w))"

fun verify_loop :: "web_storage \<Rightarrow> (string \<times> string) list \<Rightarrow> bool io" where
  "verify_loop st [] = return True"
| "verify_loop st (kv # kvs) =
     (if fst kv \<notin> set verificationExcludedStates then
        bind (hasKey st (fst kv)) (\<lambda>h.
          if \<not> h then return False
          else bind (getItem st (fst kv)) (\<lambda>x.
                 if JSON_stringify x \<noteq> JSON_stringify (Str (snd kv)) then return False
                 else verify_loop st kvs))
      else verify_loop st kvs)"

definition verifyStates :: "delegate \<Rightarrow> (string \<times> string) list \<Rightarrow> bool io" where
  "verifyStates d states =
     bind (on_storage d isConnected) (\<lambda>c.
       if c then on_storage d (\<lambda>st. verify_loop st states) else return False)"

definition errorRedirect :: "string \<Rightarrow> int \<Rightarrow> unit io" where
  "errorRedirect err errorCode = throw (Error ''Method to be implemented'')"

fun stored_params :: "web_storage \<Rightarrow> string list \<Rightarrow> (string \<times> jsval) list \<Rightarrow> ((string \<times> jsval) list) io" where
  "stored_params st [] data = return data"
| "stored_params st (q # qs) data =
     bind (getItem st q) (\<lambda>v.
       if v \<noteq> Null \<and> v \<noteq> Undefined then
         (case js_assign q v data of
            Inl e \<Rightarrow> throw e
          | Inr data' \<Rightarrow> stored_params st qs data')
       else stored_params st qs data)"

fun decoded_params :: "externals \<Rightarrow> (string \<times> string) list \<Rightarrow> (string \<times> jsval) list \<Rightarrow> ((string \<times> jsval) list) io" where
  "decoded_params ext [] query = return query"
| "decoded_params ext (pv # pvs) query =
     (case decodeURIComponent ext (snd pv) of
        Inl e \<Rightarrow> throw e
      | Inr s \<Rightarrow>
          (case js_assign (fst pv) (Str s) query of
             Inl e \<Rightarrow> throw e
           | Inr query' \<Rightarrow> decoded_params ext pvs query'))"

definition getConfigurationData :: "externals \<Rightarrow> delegate \<Rightarrow> ((string \<times> jsval) list) io" where
  "getConfigurationData ext d =
     (case dclass d of
        AuthenticationDelegate \<Rightarrow> throw (Error ''Method not implemneted'')
      | Web3AuthenticationDelegate \<Rightarrow> on_storage d (\<lambda>st. stored_params st AllowedQueryParams [])
      | Web2AuthenticationDelegate \<Rightarrow> (\<lambda>w. decoded_params ext (location_search w) [] w))"

definition captureData ::
  "registry \<Rightarrow> externals \<Rightarrow> delegate \<Rightarrow> world \<Rightarrow> (error + unit) \<times> delegate \<times> world" where
  "captureData reg ext d w =
     (case bind (getConfigurationData ext d) (\<lambda>query.
           bind (on_storage d (\<lambda>st. hasKey st ''walletconnect'')) (\<lambda>h.
           bind (if h then on_storage d (\<lambda>st. removeItem st ''walletconnect'') else return ()) (\<lambda>_.
           bind (lift (js_get query ''project_identifier'')) (\<lambda>projectId.
           bind (if projectId \<noteq> Undefined then
                   catch
                     (bind (verifyProject ext projectId) (\<lambda>res.
                        if \<not> res then throw (InvalidProjectIdError projectId)
                        else on_storage d (\<lambda>st.
                               not_awaited (setItem st ''project_identifier'' projectId))))
                     (\<lambda>_. errorRedirect ''InvalidProjectIdError'' 100000)
                 else return ()) (\<lambda>_. return query))))) w of
        (Inl e, w1) \<Rightarrow> (Inl e, d, w1)
      | (Inr query, w1) \<Rightarrow>
          (case init reg d (Obj query) w1 of
             (Inl e, d', w2) \<Rightarrow> (Inl e, d', w2)
           | (Inr _, d', w2) \<Rightarrow>
               (case identityResolver d' of
                  None \<Rightarrow> (Inr (), d', w2)
                | Some r \<Rightarrow> (case captureUri r (Obj query) w2 of (res, w3) \<Rightarrow> (res, d', w3)))))"

definition freeze :: "delegate \<Rightarrow> unit io" where
  "freeze d = setStates d [(frozenStateKey, Obj (state d))]"

definition getState :: "delegate \<Rightarrow> string \<Rightarrow> jsval io" where
  "getState d key =
     bind (on_storage d isConnected) (\<lambda>c.
       if \<not> c then throw StorageIsNotConnected
       else on_storage d (\<lambda>st. getItem st key))"

definition fromFrozenState :: "registry \<Rightarrow> world \<Rightarrow> (error + delegate) \<times> world" where
  "fromFrozenState reg w =
     (case new_delegate AuthenticationDelegate None w of
        (d, w1) \<Rightarrow>
          (case getState d frozenStateKey w1 of
             (Inl e, w2) \<Rightarrow> (Inl e, w2)
           | (Inr states, w2) \<Rightarrow>
               (case init reg d states w2 of
                  (Inl e, d', w3) \<Rightarrow> (Inl e, w3)
                | (Inr _, d', w3) \<Rightarrow> (Inr d', w3))))"

section \<open>Observing the stores\<close>

text \<open>
  A storage object of one of the two \<open>Storage\<close>-backed classes that holds a reference to
  \<open>localStorage\<close> or \<open>sessionStorage\<close>, the string map behind such a reference, and an
  update of that map.
\<close>

definition is_web :: "web_storage \<Rightarrow> storage_ref \<Rightarrow> bool" where
  "is_web st r \<longleftrightarrow> cls st \<noteq> WebWindowStore \<and> storage st = Ref r \<and> (r = LocalRef \<or> r = SessionRef)"

definition store_of :: "storage_ref \<Rightarrow> world \<Rightarrow> (string \<rightharpoonup> string)" where
  "store_of r w = (case r of LocalRef \<Rightarrow> localStorage w | SessionRef \<Rightarrow> sessionStorage w | ObjRef a \<Rightarrow> Map.empty)"

definition upd_store :: "storage_ref \<Rightarrow> ((string \<rightharpoonup> string) \<Rightarrow> (string \<rightharpoonup> string)) \<Rightarrow> world \<Rightarrow> world" where
  "upd_store r f w =
     (case r of LocalRef \<Rightarrow> w\<lparr>localStorage := f (localStorage w)\<rparr>
      | SessionRef \<Rightarrow> w\<lparr>sessionStorage := f (sessionStorage w)\<rparr>
      | ObjRef a \<Rightarrow> w)"

text \<open>The worlds and objects the concrete evaluations below start from.\<close>

definition web_world :: world where
  "web_world =
     \<lparr>isWebPlatform = True, localStorage = Map.empty, sessionStorage = Map.empty,
      heap = Map.empty, next_addr = 0, webWindowStoreAlmight = None,
      location_search = [], events = []\<rparr>"

definition undefined_channel_adapter :: adapter where
  "undefined_channel_adapter =
     \<lparr>adapter_class = ''BaseChainAdapter'', adapter_channel = None, adapter_protocol = None\<rparr>"

definition local_store :: web_storage where
  "local_store =
     \<lparr>cls = WebLocalStorage, storage = Ref LocalRef, prefix = None,
      onConnectCallback = return (), beforeDisconnectCallback = return ()\<rparr>"

definition project_world :: world where
  "project_world = web_world\<lparr>localStorage := [''project_identifier'' \<mapsto> ''\"p1\"'']\<rparr>"

definition web3_delegate :: delegate where
  "web3_delegate =
     fst (new_delegate Web3AuthenticationDelegate
            (Some \<lparr>opt_storage = None, opt_respondFrame = None, opt_respondStrategy = Undefined\<rparr>)
            project_world)"

definition window_store :: web_storage where
  "window_store =
     fst (snd (connect (fst (new_web_storage WebWindowStore None web_world)) web_world))"

definition window_world :: world where
  "window_world =
     snd (snd (connect (fst (new_web_storage WebWindowStore None web_world)) web_world))"

definition window_delegate :: delegate where
  "window_delegate =
     fst (new_delegate Web3AuthenticationDelegate
            (Some \<lparr>opt_storage = Some window_store, opt_respondFrame = None,
                   opt_respondStrategy = Undefined\<rparr>) window_world)"

text \<open>
  A storage object as \<open>connect\<close> leaves it on a web platform: the field \<open>storage\<close> refers
  to the store of its class, and for \<open>WebWindowStore\<close> the object it refers to exists,
  still has the prototype it was created with, and the global property is defined.
\<close>

definition attached :: "web_storage \<Rightarrow> world \<Rightarrow> bool" where
  "attached st w \<longleftrightarrow>
     (case storage st of
        Ref LocalRef \<Rightarrow> cls st \<noteq> WebWindowStore
      | Ref SessionRef \<Rightarrow> cls st \<noteq> WebWindowStore
      | Ref (ObjRef a) \<Rightarrow>
          cls st = WebWindowStore \<and> webWindowStoreAlmight w \<noteq> None
          \<and> (case heap w a of None \<Rightarrow> False | Some obj \<Rightarrow> proto obj = ObjectProto)
      | _ \<Rightarrow> False)"

definition local_delegate :: delegate where
  "local_delegate =
     \<lparr>dclass = Web3AuthenticationDelegate, respondStrategy = Undefined, identityResolver = None,
      respondFrame = None, state = [], dstorage = Some local_store\<rparr>"

text \<open>Whether the store behind a storage object holds an entry under a key.\<close>

definition has_entry :: "web_storage \<Rightarrow> world \<Rightarrow> string \<Rightarrow> bool" where
  "has_entry st w k \<longleftrightarrow>
     (case storage st of
        Ref LocalRef \<Rightarrow> localStorage w (getPrefixedName st k) \<noteq> None
      | Ref SessionRef \<Rightarrow> sessionStorage w (getPrefixedName st k) \<noteq> None
      | Ref (ObjRef a) \<Rightarrow> (case heap w a of None \<Rightarrow> False | Some obj \<Rightarrow> own obj k \<noteq> None)
      | _ \<Rightarrow> False)"

definition walletconnect_world :: world where
  "walletconnect_world = web_world\<lparr>localStorage := [''walletconnect'' \<mapsto> ''{}'']\<rparr>"

definition null_walletconnect_world :: world where
  "null_walletconnect_world = web_world\<lparr>localStorage := [''walletconnect'' \<mapsto> ''null'']\<rparr>"

definition corrupt_walletconnect_world :: world where
  "corrupt_walletconnect_world = web_world\<lparr>localStorage := [''walletconnect'' \<mapsto> ''abc'']\<rparr>"

definition framed_delegate :: delegate where
  "framed_delegate = local_delegate\<lparr>respondFrame := Some (Communicator ''web'')\<rparr>"

text \<open>
  A store over \<open>localStorage\<close> whose \<open>beforeDisconnectCallback\<close> throws, and the
  globals after \<open>state\<close> has been stored in the in-memory store.
\<close>

definition guarded_store :: web_storage where
  "guarded_store = local_store\<lparr>beforeDisconnectCallback := throw (Error ''busy'')\<rparr>"

definition window_state_world :: world where
  "window_state_world = snd (setItem window_store ''state'' (Str ''abc'') window_world)"

definition ping_world :: world where
  "ping_world = web_world\<lparr>localStorage := [''__ping__'' \<mapsto> ''\"abc\"'']\<rparr>"

definition state_world :: world where
  "state_world = web_world\<lparr>localStorage := [''state'' \<mapsto> ''\"abc\"'']\<rparr>"

text \<open>
  What \<open>JSON.parse\<close> returns for the text of a value: \<open>undefined\<close> in an array has
  become \<open>null\<close>, a property that holds it is gone, and \<open>Object.prototype\<close> has become
  an empty object. The invariant of objects (the property names are distinct
  and in the order of enumeration), the recursion depth a text needs, and two notions
  used to state the lemmas on the parser.
\<close>

fun canon :: "jsval \<Rightarrow> jsval" where
  "canon Undefined = Null"
| "canon ObjectPrototype = Obj []"
| "canon (Arr xs) = Arr (map canon xs)"
| "canon (Obj kvs) =
     Obj (map (\<lambda>kv. (fst kv, canon (snd kv))) (filter (\<lambda>kv. \<not> omitted (snd kv)) kvs))"
| "canon v = v"

fun enum_sorted :: "string list \<Rightarrow> bool" where
  "enum_sorted [] = True"
| "enum_sorted (k # ks) = ((\<forall>k' \<in> set ks. \<not> comes_before k' k) \<and> enum_sorted ks)"

fun well_formed :: "jsval \<Rightarrow> bool" where
  "well_formed (Arr xs) = list_all well_formed xs"
| "well_formed (Obj kvs) =
     (distinct (map fst kvs) \<and> enum_sorted (map fst kvs)
      \<and> list_all (\<lambda>kv. well_formed (snd kv)) kvs)"
| "well_formed v = True"

fun need :: "jsval \<Rightarrow> nat" where
  "need (Arr xs) = Suc (sum_list (map (\<lambda>x. Suc (need x)) xs))"
| "need (Obj kvs) =
     Suc (sum_list (map (\<lambda>kv. Suc (need (snd kv))) (filter (\<lambda>kv. \<not> omitted (snd kv)) kvs)))"
| "need v = Suc 0"

definition no_digit_start :: "string \<Rightarrow> bool" where
  "no_digit_start rest \<longleftrightarrow>
     (case rest of [] \<Rightarrow> True
      | c # _ \<Rightarrow> \<not> is_digit c \<and> c \<noteq> CHR ''.'' \<and> c \<noteq> CHR ''e'' \<and> c \<noteq> CHR ''E'')"

definition member_text :: "string \<times> jsval \<Rightarrow> string" where
  "member_text kv = quote (fst kv) @ CHR '':'' # ser (snd kv)"

text \<open>
  An entry of the state map passes the check of \<open>verifyStates\<close> in the globals \<open>w\<close> the
  call starts from: its key is excluded, or \<open>hasKey\<close> reports the key present, the value
  \<open>getItem\<close> returns has the JSON text of the provided string, and the key is not the
  ping key of a \<open>Storage\<close>-backed class, which the connectivity check writes and deletes
  before the comparison.
\<close>

definition entry_passes :: "web_storage \<Rightarrow> world \<Rightarrow> string \<times> string \<Rightarrow> bool" where
  "entry_passes st w kv \<longleftrightarrow>
     fst kv \<in> set verificationExcludedStates
     \<or> ((cls st \<noteq> WebWindowStore \<longrightarrow> fst kv \<noteq> pingKey)
        \<and> fst (hasKey st (fst kv) w) = Inr True
        \<and> (case fst (getItem st (fst kv) w) of
             Inl e \<Rightarrow> False
           | Inr x \<Rightarrow> JSON_stringify x = JSON_stringify (Str (snd kv))))"

definition corrupt_state_world :: world where
  "corrupt_state_world = web_world\<lparr>localStorage := [''state'' \<mapsto> ''abc'']\<rparr>"

text \<open>
  A sequence of \<open>init\<close> calls on one delegate (it ends at the first call that throws),
  an argument record whose values are all strings, as \<open>AuthenticationDelegateInitArgs\<close>
  declares them, and the keys of an argument record.
\<close>

fun init_calls ::
  "registry \<Rightarrow> delegate \<Rightarrow> jsval list \<Rightarrow> world \<Rightarrow> (error + unit) \<times> delegate \<times> world" where
  "init_calls reg d [] w = (Inr (), d, w)"
| "init_calls reg d (args # rest) w =
     (case init reg d args w of
        (Inl e, d', w') \<Rightarrow> (Inl e, d', w')
      | (Inr _, d', w') \<Rightarrow> init_calls reg d' rest w')"

definition is_Str :: "jsval \<Rightarrow> bool" where
  "is_Str v = (case v of Str _ \<Rightarrow> True | _ \<Rightarrow> False)"

definition string_valued :: "(string \<times> jsval) list \<Rightarrow> bool" where
  "string_valued kvs = list_all (\<lambda>kv. is_Str (snd kv)) kvs"

definition string_record :: "jsval \<Rightarrow> bool" where
  "string_record args = (case args of Obj kvs \<Rightarrow> string_valued kvs | _ \<Rightarrow> False)"

definition keys_of :: "jsval \<Rightarrow> string set" where
  "keys_of args = (case args of Obj kvs \<Rightarrow> fst ` set kvs | _ \<Rightarrow> {})"




text \<open>
  The keys whose value is in the store when \<open>init\<close> returns: \<open>init\<close> itself writes
  every key other than \<open>provider\<close> and \<open>respond_strategy\<close>, and on a \<open>Storage\<close>-backed
  class the \<open>setStates\<close> call it starts has overwritten the ping key before it is
  suspended.
\<close>

definition written_by_init :: "web_storage \<Rightarrow> string \<Rightarrow> bool" where
  "written_by_init st k \<longleftrightarrow>
     k \<noteq> ''provider'' \<and> k \<noteq> ''respond_strategy'' \<and> (cls st \<noteq> WebWindowStore \<longrightarrow> k \<noteq> pingKey)"

text \<open>
  What holds between two rounds of \<open>init\<close> on a delegate over a connected store: every
  entry of \<open>_state\<close> is a string, under a key of its own other than \<open>__proto__\<close>, the
  store returns it if \<open>init\<close> writes its key, and on a \<open>Storage\<close>-backed class the ping
  key holds the ping value once a round has been made.
\<close>

definition init_inv :: "web_storage \<Rightarrow> delegate \<Rightarrow> world \<Rightarrow> bool" where
  "init_inv st d w \<longleftrightarrow>
     dstorage d = Some st \<and> attached st w \<and> string_valued (state d)
     \<and> distinct (map fst (state d)) \<and> ''__proto__'' \<notin> fst ` set (state d)
     \<and> list_all (\<lambda>kv. written_by_init st (fst kv) \<longrightarrow> fst (getItem st (fst kv) w) = Inr (snd kv))
          (state d)
     \<and> (cls st \<noteq> WebWindowStore \<longrightarrow> state d \<noteq> [] \<longrightarrow>
          fst (getItem st pingKey w) = Inr (Str pingValue))"

section \<open>Basic facts about the effect type and the storage operations\<close>

lemmas io_defs = bind_def return_def throw_def catch_def not_awaited_def lift_def

lemma omitted_simps [simp]:
  "omitted Undefined" "\<not> omitted Null" "\<not> omitted (Bool b)"
  "\<not> omitted (Num n)" "\<not> omitted (Str s)" "\<not> omitted (Arr xs)" "\<not> omitted (Obj kvs)"
  "\<not> omitted ObjectPrototype"
  by (simp_all add: omitted_def)

lemma store_of_upd_store [simp]:
  "r = LocalRef \<or> r = SessionRef \<Longrightarrow> store_of r (upd_store r f w) = f (store_of r w)"
  by (auto simp: store_of_def upd_store_def)

lemma upd_store_upd_store [simp]:
  "upd_store r f (upd_store r g w) = upd_store r (f \<circ> g) w"
  by (cases r) (simp_all add: upd_store_def)

lemma events_upd_store [simp]: "events (upd_store r f w) = events w"
  by (cases r) (simp_all add: upd_store_def)

lemma setItem_web:
  "is_web st r \<Longrightarrow>
   setItem st k v w =
     (Inr (), upd_store r (\<lambda>m. m(getPrefixedName st k \<mapsto> (case serialize v of None \<Rightarrow> ''undefined'' | Some t \<Rightarrow> t))) w)"
  by (auto simp: is_web_def setItem_def naive_setItem_def upd_store_def Let_def)

lemma getItem_web:
  "is_web st r \<Longrightarrow>
   getItem st k w =
     (case store_of r w (getPrefixedName st k) of
        None \<Rightarrow> (Inr Null, w)
      | Some s \<Rightarrow> (case deserialize s of Inl e \<Rightarrow> (Inl e, w) | Inr x \<Rightarrow> (Inr x, w)))"
  by (auto simp: is_web_def getItem_def naive_getItem_def store_of_def io_defs split: option.splits sum.splits)

lemma removeItem_web:
  "is_web st r \<Longrightarrow>
   removeItem st k w = (Inr (), upd_store r (\<lambda>m. m(getPrefixedName st k := None)) w)"
  by (auto simp: is_web_def removeItem_def naive_removeItem_def upd_store_def)

lemma getItem_world [simp]: "snd (getItem st k w) = w"
  by (auto simp: getItem_def obj_get_def naive_getItem_def bind_def return_def throw_def
      split: nullable.splits storage_ref.splits option.splits sum.splits)

lemma hasKey_world [simp]: "snd (hasKey st k w) = w"
proof -
  obtain r where "getItem st k w = (r, w)"
    by (metis getItem_world prod.collapse)
  then show ?thesis by (cases r) (simp_all add: hasKey_def io_defs)
qed

lemma parse_ping: "deserialize (the (serialize (Str pingValue))) = Inr (Str pingValue)"
  by (simp add: deserialize_def serialize_def JSON_stringify_def pingValue_def quote_def quote_char_def
      JSON_parse_def skip_ws_def is_ws_def cons_fst_def)

lemma serialize_Str: "serialize (Str s) = Some (quote s)"
  by (simp add: serialize_def JSON_stringify_def)

lemma isConnected_web:
  assumes "is_web st r"
  shows "isConnected st w = (Inr True, upd_store r (\<lambda>m. m(getPrefixedName st pingKey := None)) w)"
proof -
  from assms have r: "r = LocalRef \<or> r = SessionRef" and c: "cls st \<noteq> WebWindowStore"
    and d: "isStorageDefined st"
    by (auto simp: is_web_def isStorageDefined_def)
  have p: "deserialize (quote pingValue) = Inr (Str pingValue)"
    using parse_ping by (simp add: serialize_Str)
  show ?thesis
    using r c d
    by (simp add: isConnected_def bind_def return_def setItem_web[OF assms] getItem_web[OF assms]
        removeItem_web[OF assms] serialize_Str p comp_def)
qed

section \<open>The chain adapter without a channel\<close>

text \<open>
  C6. On an adapter whose channel is \<open>undefined\<close>, \<open>connect\<close>, \<open>request\<close>,
  \<open>checkSession\<close>, \<open>on\<close> and the constructor throw \<open>ChannelIsNotDefined\<close>, but
  \<open>checkConnection\<close> calls the channel without the check and throws \<open>TypeError\<close>.
\<close>

theorem checkConnection_undefined_channel:
  "adapter_connect undefined_channel_adapter opts = Inl (ChannelIsNotDefined ''BaseChainAdapter'')
   \<and> adapter_request undefined_channel_adapter data = Inl (ChannelIsNotDefined ''BaseChainAdapter'')
   \<and> adapter_checkSession undefined_channel_adapter = Inl (ChannelIsNotDefined ''BaseChainAdapter'')
   \<and> adapter_on undefined_channel_adapter ev = Inl (ChannelIsNotDefined ''BaseChainAdapter'')
   \<and> new_adapter ''BaseChainAdapter'' \<lparr>opt_channel = None, opt_protocolDefination = None\<rparr>
         = Inl (ChannelIsNotDefined ''BaseChainAdapter'')
   \<and> adapter_checkConnection undefined_channel_adapter = Inl TypeError"
  by (simp add: undefined_channel_adapter_def adapter_connect_def adapter_request_def
      adapter_checkSession_def adapter_on_def adapter_checkConnection_def checkChannel_def
      new_adapter_def)

section \<open>Resuming from the frozen state\<close>

text \<open>
  C2. \<open>fromFrozenState\<close> constructs the delegate without options, so its field
  \<open>storage\<close> is \<open>undefined\<close> and reading the frozen state throws \<open>TypeError\<close>: no
  delegate is returned, whatever was frozen.
\<close>

theorem fromFrozenState_rejects:
  "fst (fromFrozenState reg w) = Inl TypeError"
  by (simp add: fromFrozenState_def new_delegate_def getState_def on_storage_def bind_def throw_def)

section \<open>Concrete stores and delegates\<close>

lemma local_store_web: "is_web local_store LocalRef"
  by (simp add: is_web_def local_store_def)

lemma local_store_name [simp]: "getPrefixedName local_store k = k"
  by (simp add: getPrefixedName_def local_store_def)

lemma web3_delegate_eq:
  "web3_delegate =
     \<lparr>dclass = Web3AuthenticationDelegate, respondStrategy = Undefined, identityResolver = None,
      respondFrame = None, state = [], dstorage = Some local_store\<rparr>"
  by (simp add: web3_delegate_def new_delegate_def Let_def new_web_storage_def connect_def
      checkPlatform_def project_world_def web_world_def local_store_def io_defs)

lemma local_delegate_constructed: "local_delegate = web3_delegate"
  by (simp add: web3_delegate_eq local_delegate_def)

lemma parse_p1: "deserialize ''\"p1\"'' = Inr (Str ''p1'')"
  by (simp add: deserialize_def JSON_parse_def skip_ws_def is_ws_def cons_fst_def)

lemma project_get:
  "getItem local_store k project_world =
     (if k = ''project_identifier'' then (Inr (Str ''p1''), project_world)
      else (Inr Null, project_world))"
  by (simp add: getItem_web[OF local_store_web] store_of_def project_world_def parse_p1)

lemma stored_params_Cons:
  "stored_params st (q # qs) data w =
     (case fst (getItem st q w) of
        Inl e \<Rightarrow> (Inl e, w)
      | Inr v \<Rightarrow>
          if v \<noteq> Null \<and> v \<noteq> Undefined then
            (case js_assign q v data of
               Inl e \<Rightarrow> (Inl e, w)
             | Inr data' \<Rightarrow> stored_params st qs data' w)
          else stored_params st qs data w)"
proof -
  obtain r where "getItem st q w = (r, w)"
    by (metis getItem_world prod.collapse)
  then show ?thesis by (cases r) (simp_all add: bind_def throw_def split: sum.splits)
qed

lemma js_assign_project:
  "js_assign ''project_identifier'' v [] = Inr [(''project_identifier'', v)]"
  by (simp add: js_assign_def)

lemma project_config:
  "getConfigurationData ext web3_delegate project_world =
     (Inr [(''project_identifier'', Str ''p1'')], project_world)"
  by (simp add: getConfigurationData_def web3_delegate_eq on_storage_def AllowedQueryParams_def
      stored_params_Cons return_def project_get js_assign_project del: stored_params.simps(2))

section \<open>Failures during captureData\<close>

text \<open>
  C4. A \<open>Web3AuthenticationDelegate\<close> over \<open>localStorage\<close> holding the project
  identifier \<open>p1\<close>: when the backend answers that the project is not verified, and when
  the backend call fails, \<open>captureData\<close> catches the failure and calls \<open>errorRedirect\<close>,
  which throws \<open>Error("Method to be implemented")\<close> out of the handler: the promise of
  \<open>captureData\<close> rejects.
\<close>

theorem captureData_rejects:
  "fst (captureData reg (ext\<lparr>project_ident := \<lambda>_. Inr False\<rparr>) web3_delegate project_world)
     = Inl (Error ''Method to be implemented'')
   \<and> fst (captureData reg (ext\<lparr>project_ident := \<lambda>_. Inl (BackendError ''Network Error'')\<rparr>)
             web3_delegate project_world)
     = Inl (Error ''Method to be implemented'')"
  apply (simp add: captureData_def bind_def project_config)
  apply (simp add: on_storage_def web3_delegate_eq hasKey_def project_get bind_def
      return_def lift_def js_get_def verifyProject_def errorRedirect_def catch_def throw_def)
  done

section \<open>Registration without a project identifier\<close>

text \<open>
  C5. A delegate over a connected, empty \<open>WebWindowStore\<close>: \<open>getItem\<close> of that class
  returns \<open>undefined\<close> for the missing key, \<open>hasKey\<close> compares with \<open>null\<close> and answers
  true, and \<open>handleUserRegistration\<close> goes on to post the registration with no project
  header instead of failing with \<open>Error("Project Identifier is not provided")\<close>.
\<close>

theorem handleUserRegistration_window_store:
  "fst (hasKey window_store ''project_identifier'' window_world) = Inr True
   \<and> fst (handleUserRegistration ext window_delegate window_world) = post_token ext Undefined []"
  by (simp add: handleUserRegistration_def window_delegate_def new_delegate_def Let_def
      window_store_def window_world_def new_web_storage_def connect_def checkPlatform_def
      web_world_def on_storage_def hasKey_def getItem_def obj_get_def registerUser_def
      getTokenHeaders_def js_get_def io_defs read_property_def
      inherited_def Object_prototype_names_def empty_object_def js_define_def comes_before_def
      array_index_def is_digit_def)

section \<open>Presence of a key\<close>

lemma attached_cases:
  assumes "attached st w"
  obtains (web) r where "is_web st r"
  | (window) a obj where "cls st = WebWindowStore" "storage st = Ref (ObjRef a)"
      "heap w a = Some obj" "proto obj = ObjectProto" "webWindowStoreAlmight w \<noteq> None"
  using assms
  by (auto simp: attached_def is_web_def split: nullable.splits storage_ref.splits option.splits)



lemma read_property_missing:
  "own obj k = None \<Longrightarrow> proto obj = ObjectProto \<Longrightarrow> read_property obj k = inherited k"
  by (simp add: read_property_def)

lemma setItem_window_gen:
  "cls st = WebWindowStore \<Longrightarrow> storage st = Ref (ObjRef a) \<Longrightarrow> heap w a = Some obj \<Longrightarrow>
   setItem st k v w =
     (case write_property obj k v of
        Inl e \<Rightarrow> (Inl e, w)
      | Inr obj' \<Rightarrow> (Inr (), w\<lparr>heap := (heap w)(a \<mapsto> obj')\<rparr>))"
  by (simp add: setItem_def obj_set_def)


lemma getItem_window:
  "cls st = WebWindowStore \<Longrightarrow> storage st = Ref (ObjRef a) \<Longrightarrow> heap w a = Some obj \<Longrightarrow>
   getItem st k w = (read_property obj k, w)"
  by (simp add: getItem_def obj_get_def)

lemma removeItem_window:
  "cls st = WebWindowStore \<Longrightarrow> storage st = Ref (ObjRef a) \<Longrightarrow> heap w a = Some obj \<Longrightarrow>
   removeItem st k w = (Inr (), w\<lparr>heap := (heap w)(a \<mapsto> obj\<lparr>own := (own obj)(k := None)\<rparr>)\<rparr>)"
  by (simp add: removeItem_def obj_delete_def)

lemma isConnected_window:
  "cls st = WebWindowStore \<Longrightarrow>
   isConnected st w = (Inr (storage st \<noteq> IsNull \<and> webWindowStoreAlmight w \<noteq> None), w)"
  by (simp add: isConnected_def)

lemma hasKey_eq:
  "hasKey st key w =
     (case fst (getItem st key w) of Inl e \<Rightarrow> (Inl e, w) | Inr v \<Rightarrow> (Inr (v \<noteq> Null), w))"
proof -
  obtain r where "getItem st key w = (r, w)"
    by (metis getItem_world prod.collapse)
  then show ?thesis by (cases r) (simp_all add: hasKey_def io_defs)
qed


lemma parse_null: "deserialize ''null'' = Inr Null"
  by (simp add: deserialize_def JSON_parse_def skip_ws_def is_ws_def)

lemma getPrefixedName_inj [simp]: "getPrefixedName st a = getPrefixedName st b \<longleftrightarrow> a = b"
  by (simp add: getPrefixedName_def split: option.splits)



lemma window_store_eq:
  "window_store =
     \<lparr>cls = WebWindowStore, storage = Ref (ObjRef 0), prefix = None,
      onConnectCallback = return (), beforeDisconnectCallback = return ()\<rparr>"
  by (simp add: window_store_def new_web_storage_def connect_def checkPlatform_def web_world_def
      Let_def return_def)

lemma window_world_eq:
  "window_world = web_world\<lparr>heap := [0 \<mapsto> empty_object], webWindowStoreAlmight := Some 0, next_addr := Suc 0\<rparr>"
  by (simp add: window_world_def new_web_storage_def connect_def checkPlatform_def web_world_def
      Let_def return_def)





section \<open>Disconnecting a store\<close>

lemma disconnect_eq:
  "disconnect st w =
     (case fst (beforeDisconnectCallback st w) of
        Inl e \<Rightarrow> (Inl e, st, snd (beforeDisconnectCallback st w))
      | Inr _ \<Rightarrow>
          (case fst (clear st (snd (beforeDisconnectCallback st w))) of
             Inl e \<Rightarrow> (Inl e, st, snd (clear st (snd (beforeDisconnectCallback st w))))
           | Inr _ \<Rightarrow> (Inr (), st\<lparr>storage := IsNull\<rparr>, snd (clear st (snd (beforeDisconnectCallback st w))))))"
proof -
  obtain r1 w1 where cb: "beforeDisconnectCallback st w = (r1, w1)"
    by (cases "beforeDisconnectCallback st w")
  obtain r2 w2 where cl: "clear st w1 = (r2, w2)"
    by (cases "clear st w1")
  show ?thesis
    by (cases r1; cases r2) (simp_all add: disconnect_def bind_def cb cl)
qed

lemma isConnected_nulled:
  "storage st = IsNull \<Longrightarrow> isConnected st w = (Inr False, w)"
  by (simp add: isConnected_def isStorageDefined_def return_def)

lemma window_state_world_eq:
  "window_state_world =
     web_world\<lparr>heap := [0 \<mapsto> \<lparr>own = [''state'' \<mapsto> Str ''abc''], proto = ObjectProto\<rparr>],
               webWindowStoreAlmight := Some 0, next_addr := Suc 0\<rparr>"
  by (simp add: window_state_world_def setItem_def obj_set_def window_store_eq window_world_eq
      write_property_def empty_object_def web_world_def)

text \<open>
  C10. \<open>disconnect\<close> does not erase the keys of every store. When
  \<open>beforeDisconnectCallback\<close> throws, \<open>disconnect\<close> rejects before \<open>clear\<close>: the keys
  stay, \<open>storage\<close> is not set to \<open>null\<close> and \<open>isConnected\<close> still answers true. For
  \<open>WebWindowStore\<close>, \<open>clear\<close> only replaces the global property by a new object: the
  object that holds the keys is not changed, and a store that still refers to it reads
  them and answers that it is connected.
\<close>

theorem disconnect_keeps_counterexample:
  "disconnect guarded_store project_world = (Inl (Error ''busy''), guarded_store, project_world)
   \<and> localStorage project_world ''project_identifier'' = Some ''\"p1\"''
   \<and> fst (isConnected guarded_store project_world) = Inr True
   \<and> fst (disconnect window_store window_state_world) = Inr ()
   \<and> fst (getItem window_store ''state'' (snd (snd (disconnect window_store window_state_world))))
       = Inr (Str ''abc'')
   \<and> fst (isConnected window_store (snd (snd (disconnect window_store window_state_world))))
       = Inr True"
proof -
  have w: "is_web guarded_store LocalRef"
    by (simp add: is_web_def guarded_store_def local_store_def)
  have "disconnect guarded_store project_world = (Inl (Error ''busy''), guarded_store, project_world)"
    by (simp add: disconnect_def bind_def throw_def guarded_store_def)
  moreover have "localStorage project_world ''project_identifier'' = Some ''\"p1\"''"
    by (simp add: project_world_def)
  moreover have "fst (isConnected guarded_store project_world) = Inr True"
    by (simp add: isConnected_web[OF w])
  moreover have d: "disconnect window_store window_state_world =
      (Inr (), window_store\<lparr>storage := IsNull\<rparr>,
       window_state_world\<lparr>heap := (heap window_state_world)(Suc 0 \<mapsto> empty_object),
                           webWindowStoreAlmight := Some (Suc 0), next_addr := Suc (Suc 0)\<rparr>)"
    by (simp add: disconnect_def bind_def return_def clear_def window_store_eq
        window_state_world_eq)
  moreover have "fst (getItem window_store ''state'' (snd (snd (disconnect window_store window_state_world))))
       = Inr (Str ''abc'')"
    by (simp add: d) (simp add: getItem_def obj_get_def window_store_eq window_state_world_eq
        read_property_def)
  moreover have "fst (isConnected window_store (snd (snd (disconnect window_store window_state_world))))
       = Inr True"
    by (simp add: d) (simp add: isConnected_def window_store_eq)
  ultimately show ?thesis by simp
qed

text \<open>
  C10, as it holds. \<open>disconnect\<close> runs \<open>beforeDisconnectCallback\<close>, then \<open>clear\<close>, then
  sets \<open>storage\<close> to \<open>null\<close>. When the callback throws, \<open>disconnect\<close> rejects with its
  exception and nothing else has happened. When it returns on a store of a
  \<open>Storage\<close>-backed class whose field \<open>storage\<close> is not a \<open>Storage\<close> object,
  \<open>disconnect\<close> rejects with \<open>TypeError\<close> and nothing else has happened. Otherwise
  \<open>disconnect\<close> returns with \<open>storage\<close> set to \<open>null\<close>, and every \<open>isConnected\<close> on the
  object as it was left answers false, in every state of the globals; \<open>localStorage\<close> or
  \<open>sessionStorage\<close> is then empty, and for \<open>WebWindowStore\<close> the global property refers
  to a new empty object while every other object is as the callback left it.
\<close>

theorem disconnect_outcomes:
  "(\<forall>e. fst (beforeDisconnectCallback st w) = Inl e \<longrightarrow>
        disconnect st w = (Inl e, st, snd (beforeDisconnectCallback st w)))
   \<and> (fst (beforeDisconnectCallback st w) = Inr () \<longrightarrow> cls st \<noteq> WebWindowStore \<longrightarrow>
        storage st \<noteq> Ref LocalRef \<longrightarrow> storage st \<noteq> Ref SessionRef \<longrightarrow>
        disconnect st w = (Inl TypeError, st, snd (beforeDisconnectCallback st w)))
   \<and> (fst (beforeDisconnectCallback st w) = Inr () \<longrightarrow> cls st \<noteq> WebWindowStore \<longrightarrow>
        (storage st = Ref LocalRef \<or> storage st = Ref SessionRef) \<longrightarrow>
        fst (disconnect st w) = Inr ()
        \<and> storage (fst (snd (disconnect st w))) = IsNull
        \<and> (\<forall>r. storage st = Ref r \<longrightarrow> store_of r (snd (snd (disconnect st w))) = Map.empty)
        \<and> (\<forall>w''. isConnected (fst (snd (disconnect st w))) w'' = (Inr False, w'')))
   \<and> (fst (beforeDisconnectCallback st w) = Inr () \<longrightarrow> cls st = WebWindowStore \<longrightarrow>
        fst (disconnect st w) = Inr ()
        \<and> storage (fst (snd (disconnect st w))) = IsNull
        \<and> webWindowStoreAlmight (snd (snd (disconnect st w)))
            = Some (next_addr (snd (beforeDisconnectCallback st w)))
        \<and> heap (snd (snd (disconnect st w))) (next_addr (snd (beforeDisconnectCallback st w)))
            = Some empty_object
        \<and> (\<forall>b. b \<noteq> next_addr (snd (beforeDisconnectCallback st w)) \<longrightarrow>
               heap (snd (snd (disconnect st w))) b = heap (snd (beforeDisconnectCallback st w)) b)
        \<and> (\<forall>w''. isConnected (fst (snd (disconnect st w))) w'' = (Inr False, w'')))"
proof -
  let ?w1 = "snd (beforeDisconnectCallback st w)"
  have 1: "\<forall>e. fst (beforeDisconnectCallback st w) = Inl e \<longrightarrow>
        disconnect st w = (Inl e, st, ?w1)"
    by (simp add: disconnect_eq)
  have 2: "fst (beforeDisconnectCallback st w) = Inr () \<longrightarrow> cls st \<noteq> WebWindowStore \<longrightarrow>
        storage st \<noteq> Ref LocalRef \<longrightarrow> storage st \<noteq> Ref SessionRef \<longrightarrow>
        disconnect st w = (Inl TypeError, st, ?w1)"
    by (cases "storage st")
       (auto simp: disconnect_eq clear_def naive_clear_def throw_def split: storage_ref.splits)
  have 3: "fst (beforeDisconnectCallback st w) = Inr () \<longrightarrow> cls st \<noteq> WebWindowStore \<longrightarrow>
        (storage st = Ref LocalRef \<or> storage st = Ref SessionRef) \<longrightarrow>
        fst (disconnect st w) = Inr ()
        \<and> storage (fst (snd (disconnect st w))) = IsNull
        \<and> (\<forall>r. storage st = Ref r \<longrightarrow> store_of r (snd (snd (disconnect st w))) = Map.empty)
        \<and> (\<forall>w''. isConnected (fst (snd (disconnect st w))) w'' = (Inr False, w''))"
    by (auto simp: disconnect_eq clear_def naive_clear_def store_of_def isConnected_nulled)
  have 4: "fst (beforeDisconnectCallback st w) = Inr () \<longrightarrow> cls st = WebWindowStore \<longrightarrow>
        fst (disconnect st w) = Inr ()
        \<and> storage (fst (snd (disconnect st w))) = IsNull
        \<and> webWindowStoreAlmight (snd (snd (disconnect st w))) = Some (next_addr ?w1)
        \<and> heap (snd (snd (disconnect st w))) (next_addr ?w1) = Some empty_object
        \<and> (\<forall>b. b \<noteq> next_addr ?w1 \<longrightarrow> heap (snd (snd (disconnect st w))) b = heap ?w1 b)
        \<and> (\<forall>w''. isConnected (fst (snd (disconnect st w))) w'' = (Inr False, w''))"
    by (auto simp: disconnect_eq clear_def isConnected_nulled)
  from 1 2 3 4 show ?thesis by blast
qed

theorem disconnect_outcomes_witness:
  "localStorage project_world ''project_identifier'' = Some ''\"p1\"''
   \<and> fst (disconnect local_store project_world) = Inr ()
   \<and> storage (fst (snd (disconnect local_store project_world))) = IsNull
   \<and> localStorage (snd (snd (disconnect local_store project_world))) = Map.empty
   \<and> isConnected (fst (snd (disconnect local_store project_world))) project_world
       = (Inr False, project_world)
   \<and> fst (disconnect window_store window_state_world) = Inr ()
   \<and> webWindowStoreAlmight (snd (snd (disconnect window_store window_state_world))) = Some (Suc 0)
   \<and> heap (snd (snd (disconnect window_store window_state_world))) (Suc 0) = Some empty_object
   \<and> heap (snd (snd (disconnect window_store window_state_world))) 0 = heap window_state_world 0
   \<and> disconnect guarded_store project_world = (Inl (Error ''busy''), guarded_store, project_world)"
proof -
  have b: "fst (beforeDisconnectCallback local_store project_world) = Inr ()"
    "snd (beforeDisconnectCallback local_store project_world) = project_world"
    by (simp_all add: local_store_def return_def)
  have c: "cls local_store = WebLocalStorage" and s: "storage local_store = Ref LocalRef"
    by (simp_all add: local_store_def)
  have p: "localStorage project_world ''project_identifier'' = Some ''\"p1\"''"
    by (simp add: project_world_def)
  have bw: "fst (beforeDisconnectCallback window_store window_state_world) = Inr ()"
    "snd (beforeDisconnectCallback window_store window_state_world) = window_state_world"
    by (simp_all add: window_store_eq return_def)
  have cw: "cls window_store = WebWindowStore"
    by (simp add: window_store_eq)
  have n: "next_addr window_state_world = Suc 0"
    by (simp add: window_state_world_eq)
  have bg: "fst (beforeDisconnectCallback guarded_store project_world) = Inl (Error ''busy'')"
    "snd (beforeDisconnectCallback guarded_store project_world) = project_world"
    by (simp_all add: guarded_store_def throw_def)
  have l: "fst (disconnect local_store project_world) = Inr ()
     \<and> storage (fst (snd (disconnect local_store project_world))) = IsNull
     \<and> localStorage (snd (snd (disconnect local_store project_world))) = Map.empty
     \<and> isConnected (fst (snd (disconnect local_store project_world))) project_world
       = (Inr False, project_world)"
    using disconnect_outcomes[of local_store project_world] b by (simp add: c s store_of_def)
  have v: "fst (disconnect window_store window_state_world) = Inr ()
     \<and> webWindowStoreAlmight (snd (snd (disconnect window_store window_state_world))) = Some (Suc 0)
     \<and> heap (snd (snd (disconnect window_store window_state_world))) (Suc 0) = Some empty_object
     \<and> heap (snd (snd (disconnect window_store window_state_world))) 0 = heap window_state_world 0"
    using disconnect_outcomes[of window_store window_state_world] bw by (simp add: cw n)
  have g: "disconnect guarded_store project_world = (Inl (Error ''busy''), guarded_store, project_world)"
    using disconnect_outcomes[of guarded_store project_world] bg by simp
  from p l v g show ?thesis by simp
qed

section \<open>Closing the delegate\<close>

lemma upd_store_id [simp]: "upd_store r (\<lambda>m. m) w = w"
  by (cases r) (simp_all add: upd_store_def)

lemma has_entry_web:
  "is_web st r \<Longrightarrow> has_entry st w k \<longleftrightarrow> store_of r w (getPrefixedName st k) \<noteq> None"
  by (auto simp: is_web_def has_entry_def store_of_def)

lemma has_entry_window:
  "storage st = Ref (ObjRef a) \<Longrightarrow> heap w a = Some obj \<Longrightarrow> has_entry st w k \<longleftrightarrow> own obj k \<noteq> None"
  by (simp add: has_entry_def)

lemma for_each_Cons_ok: "f x w = (Inr (), w1) \<Longrightarrow> for_each f (x # xs) w = for_each f xs w1"
  by (simp add: bind_def)

lemma on_storage_Some: "dstorage d = Some st \<Longrightarrow> on_storage d f = f st"
  by (simp add: on_storage_def)

lemma remove_all_web:
  assumes "is_web st r"
  shows "for_each (removeItem st) ks w =
           (Inr (), upd_store r (\<lambda>m. m |` (- getPrefixedName st ` set ks)) w)"
proof (induction ks arbitrary: w)
  case Nil
  show ?case by (simp add: return_def)
next
  case (Cons k ks)
  have fe: "(\<lambda>m. m |` (- getPrefixedName st ` set ks)) \<circ> (\<lambda>m. m(getPrefixedName st k := None))
          = (\<lambda>m::string \<rightharpoonup> string. m |` (- getPrefixedName st ` set (k # ks)))"
    by (auto simp: fun_eq_iff restrict_map_def)
  have "for_each (removeItem st) (k # ks) w =
          for_each (removeItem st) ks (upd_store r (\<lambda>m. m(getPrefixedName st k := None)) w)"
    by (rule for_each_Cons_ok[where f = "removeItem st", OF removeItem_web[OF assms]])
  also have "\<dots> = (Inr (), upd_store r (\<lambda>m. m |` (- getPrefixedName st ` set ks))
                               (upd_store r (\<lambda>m. m(getPrefixedName st k := None)) w))"
    by (rule Cons.IH)
  finally show ?case
    by (simp only: upd_store_upd_store fe)
qed

lemma remove_all_window:
  assumes "cls st = WebWindowStore" and "storage st = Ref (ObjRef a)"
  shows "heap w a = Some obj \<Longrightarrow>
         for_each (removeItem st) ks w =
           (Inr (), w\<lparr>heap := (heap w)(a \<mapsto> obj\<lparr>own := own obj |` (- set ks)\<rparr>)\<rparr>)"
proof (induction ks arbitrary: w obj)
  case Nil
  then have "(heap w)(a \<mapsto> obj) = heap w" by (simp add: fun_upd_idem)
  then show ?case by (simp add: return_def)
next
  case (Cons k ks)
  define obj1 where "obj1 = obj\<lparr>own := (own obj)(k := None)\<rparr>"
  define w1 where "w1 = w\<lparr>heap := (heap w)(a \<mapsto> obj1)\<rparr>"
  have oe: "obj1\<lparr>own := own obj1 |` (- set ks)\<rparr> = obj\<lparr>own := own obj |` (- set (k # ks))\<rparr>"
    by (auto simp: obj1_def fun_eq_iff restrict_map_def)
  have h1: "heap w1 a = Some obj1" by (simp add: w1_def)
  have r: "removeItem st k w = (Inr (), w1)"
    unfolding w1_def obj1_def by (rule removeItem_window[OF assms Cons.prems])
  have "for_each (removeItem st) (k # ks) w = for_each (removeItem st) ks w1"
    by (rule for_each_Cons_ok[where f = "removeItem st", OF r])
  also have "\<dots> = (Inr (), w1\<lparr>heap := (heap w1)(a \<mapsto> obj1\<lparr>own := own obj1 |` (- set ks)\<rparr>)\<rparr>)"
    by (rule Cons.IH[OF h1])
  finally have fin: "for_each (removeItem st) (k # ks) w =
      (Inr (), w1\<lparr>heap := (heap w1)(a \<mapsto> obj1\<lparr>own := own obj1 |` (- set ks)\<rparr>)\<rparr>)" .
  have weq: "w1\<lparr>heap := (heap w1)(a \<mapsto> obj\<lparr>own := own obj |` (- set (k # ks))\<rparr>)\<rparr>
      = w\<lparr>heap := (heap w)(a \<mapsto> obj\<lparr>own := own obj |` (- set (k # ks))\<rparr>)\<rparr>"
    by (simp add: w1_def)
  show ?case
    by (simp only: fin oe weq)
qed

lemma walletconnect_not_param: "''walletconnect'' \<notin> set AllowedQueryParams"
  by (simp add: AllowedQueryParams_def)

lemma clean_web:
  assumes web: "is_web st r" and d: "dstorage d = Some st"
  shows "clean d w =
     (Inr (), upd_store r (\<lambda>m. (m(getPrefixedName st pingKey := None))
                                   |` (- getPrefixedName st ` set AllowedQueryParams)) w)"
proof -
  have loop: "(\<lambda>q. on_storage d (\<lambda>st. removeItem st q)) = removeItem st"
    by (simp add: on_storage_Some[OF d])
  have fe: "(\<lambda>m. m |` (- getPrefixedName st ` set AllowedQueryParams)) \<circ> (\<lambda>m. m(getPrefixedName st pingKey := None))
      = (\<lambda>m::string \<rightharpoonup> string. (m(getPrefixedName st pingKey := None))
                                   |` (- getPrefixedName st ` set AllowedQueryParams))"
    by (simp add: fun_eq_iff)
  have "clean d w = for_each (removeItem st) AllowedQueryParams (upd_store r (\<lambda>m. m(getPrefixedName st pingKey := None)) w)"
    by (simp add: clean_def bind_def on_storage_Some[OF d] isConnected_web[OF web] loop)
  also have "\<dots> = (Inr (), upd_store r (\<lambda>m. m |` (- getPrefixedName st ` set AllowedQueryParams))
                               (upd_store r (\<lambda>m. m(getPrefixedName st pingKey := None)) w))"
    by (rule remove_all_web[OF web])
  finally show ?thesis
    by (simp only: upd_store_upd_store fe)
qed

lemma close_web:
  assumes web: "is_web st r" and d: "dstorage d = Some st"
  shows "(\<forall>q \<in> set AllowedQueryParams. \<not> has_entry st (snd (close d w)) q)
       \<and> (\<forall>h. fst (hasKey st ''walletconnect'' w) = Inr h \<longrightarrow>
             fst (close d w) = Inr ()
             \<and> (has_entry st (snd (close d w)) ''walletconnect'' \<longleftrightarrow> has_entry st w ''walletconnect'' \<and> \<not> h)
             \<and> events (snd (close d w)) =
                 events w @ (case respondFrame d of None \<Rightarrow> [] | Some f \<Rightarrow> [FrameClosed f]))
       \<and> (\<forall>e. fst (hasKey st ''walletconnect'' w) = Inl e \<longrightarrow>
             fst (close d w) = Inl e
             \<and> has_entry st (snd (close d w)) ''walletconnect''
             \<and> events (snd (close d w)) = events w)"
proof -
  from web have r: "r = LocalRef \<or> r = SessionRef" by (simp add: is_web_def)
  define f :: "(string \<rightharpoonup> string) \<Rightarrow> (string \<rightharpoonup> string)"
    where "f = (\<lambda>m. (m(getPrefixedName st pingKey := None)) |` (- getPrefixedName st ` set AllowedQueryParams))"
  define w1 where "w1 = upd_store r f w"
  have f_param: "\<And>m q. q \<in> set AllowedQueryParams \<Longrightarrow> f m (getPrefixedName st q) = None"
    by (simp add: f_def restrict_map_def)
  have f_wc: "\<And>m. f m (getPrefixedName st ''walletconnect'') = m (getPrefixedName st ''walletconnect'')"
    using walletconnect_not_param by (auto simp: f_def restrict_map_def pingKey_def)
  have s1: "store_of r w1 = f (store_of r w)"
    using r by (simp add: w1_def)
  have e1: "events w1 = events w"
    by (simp add: w1_def)
  have cl: "clean d w = (Inr (), w1)"
    unfolding w1_def f_def by (rule clean_web[OF web d])
  have hk: "hasKey st ''walletconnect'' w1 = (fst (hasKey st ''walletconnect'' w), w1)"
    by (simp add: hasKey_eq getItem_web[OF web] s1 f_wc split: option.splits sum.splits)
  have st_ev: "\<And>x e. store_of r (x\<lparr>events := e\<rparr>) = store_of r x"
    by (simp add: store_of_def split: storage_ref.splits)
  have ok: "fst (close d w) = Inr ()
             \<and> (has_entry st (snd (close d w)) ''walletconnect'' \<longleftrightarrow> has_entry st w ''walletconnect'' \<and> \<not> h)
             \<and> events (snd (close d w)) =
                 events w @ (case respondFrame d of None \<Rightarrow> [] | Some f \<Rightarrow> [FrameClosed f])
             \<and> (\<forall>q \<in> set AllowedQueryParams. \<not> has_entry st (snd (close d w)) q)"
    if h: "fst (hasKey st ''walletconnect'' w) = Inr h" for h
  proof -
    have hk': "hasKey st ''walletconnect'' w1 = (Inr h, w1)"
      by (simp add: hk h)
    define w2 where "w2 = (if h then upd_store r (\<lambda>m. m(getPrefixedName st ''walletconnect'' := None)) w1 else w1)"
    have s2: "\<And>k. store_of r w2 k =
               (if h \<and> k = getPrefixedName st ''walletconnect'' then None else f (store_of r w) k)"
      using r by (simp add: w2_def s1)
    have e2: "events w2 = events w"
      by (simp add: w2_def e1)
    have w': "close d w = (Inr (), (case respondFrame d of None \<Rightarrow> w2 | Some c \<Rightarrow> w2\<lparr>events := events w2 @ [FrameClosed c]\<rparr>))"
      by (simp add: close_def bind_def cl on_storage_Some[OF d] hk' removeItem_web[OF web] return_def
          frame_close_def w2_def split: option.splits)
    have s': "store_of r (snd (close d w)) = store_of r w2"
      by (simp add: w' st_ev split: option.splits)
    have "fst (close d w) = Inr ()" by (simp add: w')
    moreover have "events (snd (close d w)) =
           events w @ (case respondFrame d of None \<Rightarrow> [] | Some f \<Rightarrow> [FrameClosed f])"
      by (simp add: w' e2 split: option.splits)
    moreover have "\<forall>q \<in> set AllowedQueryParams. \<not> has_entry st (snd (close d w)) q"
      by (simp add: has_entry_web[OF web] s' s2 f_param)
    moreover have "has_entry st (snd (close d w)) ''walletconnect'' \<longleftrightarrow> has_entry st w ''walletconnect'' \<and> \<not> h"
      by (simp add: has_entry_web[OF web] s' s2 f_wc)
    ultimately show ?thesis by blast
  qed
  have err: "fst (close d w) = Inl e
             \<and> has_entry st (snd (close d w)) ''walletconnect''
             \<and> events (snd (close d w)) = events w
             \<and> (\<forall>q \<in> set AllowedQueryParams. \<not> has_entry st (snd (close d w)) q)"
    if h: "fst (hasKey st ''walletconnect'' w) = Inl e" for e
  proof -
    have hk': "hasKey st ''walletconnect'' w1 = (Inl e, w1)"
      by (simp add: hk h)
    have w': "close d w = (Inl e, w1)"
      by (simp add: close_def bind_def cl on_storage_Some[OF d] hk')
    have ent: "store_of r w (getPrefixedName st ''walletconnect'') \<noteq> None"
      using h by (auto simp: hasKey_eq getItem_web[OF web] split: option.splits)
    show ?thesis
      using ent by (simp add: w' e1 has_entry_web[OF web] s1 f_wc f_param)
  qed
  show ?thesis
  proof (cases "fst (hasKey st ''walletconnect'' w)")
    case (Inl e)
    then show ?thesis using err[OF Inl] by simp
  next
    case (Inr h)
    then show ?thesis using ok[OF Inr] by simp
  qed
qed

lemma close_window:
  assumes c: "cls st = WebWindowStore" and s: "storage st = Ref (ObjRef a)"
    and o: "heap w a = Some obj" and p: "proto obj = ObjectProto"
    and g: "webWindowStoreAlmight w \<noteq> None"
    and d: "dstorage d = Some st"
  shows "(\<forall>q \<in> set AllowedQueryParams. \<not> has_entry st (snd (close d w)) q)
       \<and> (\<forall>h. fst (hasKey st ''walletconnect'' w) = Inr h \<longrightarrow>
             fst (close d w) = Inr ()
             \<and> (has_entry st (snd (close d w)) ''walletconnect'' \<longleftrightarrow> has_entry st w ''walletconnect'' \<and> \<not> h)
             \<and> events (snd (close d w)) =
                 events w @ (case respondFrame d of None \<Rightarrow> [] | Some f \<Rightarrow> [FrameClosed f]))
       \<and> (\<forall>e. fst (hasKey st ''walletconnect'' w) = Inl e \<longrightarrow>
             fst (close d w) = Inl e
             \<and> has_entry st (snd (close d w)) ''walletconnect''
             \<and> events (snd (close d w)) = events w)"
proof -
  define obj1 where "obj1 = obj\<lparr>own := own obj |` (- set AllowedQueryParams)\<rparr>"
  define w1 where "w1 = w\<lparr>heap := (heap w)(a \<mapsto> obj1)\<rparr>"
  have o1_param: "\<And>q. q \<in> set AllowedQueryParams \<Longrightarrow> own obj1 q = None"
    by (simp add: obj1_def restrict_map_def)
  have o1_wc: "own obj1 ''walletconnect'' = own obj ''walletconnect''"
    using walletconnect_not_param by (simp add: obj1_def restrict_map_def)
  have p1: "proto obj1 = ObjectProto"
    by (simp add: obj1_def p)
  have h1: "heap w1 a = Some obj1" and e1: "events w1 = events w"
    by (simp_all add: w1_def)
  have loop: "(\<lambda>q. on_storage d (\<lambda>st. removeItem st q)) = removeItem st"
    by (simp add: on_storage_Some[OF d])
  have "clean d w = for_each (removeItem st) AllowedQueryParams w"
    using g by (simp add: clean_def bind_def on_storage_Some[OF d] isConnected_window[OF c] s loop)
  also have "\<dots> = (Inr (), w1)"
    unfolding w1_def obj1_def by (rule remove_all_window[OF c s o])
  finally have cl: "clean d w = (Inr (), w1)" .
  have rd: "read_property obj1 ''walletconnect'' = read_property obj ''walletconnect''"
    by (simp add: read_property_def o1_wc p p1 split: option.splits)
  have iw: "inherited ''walletconnect'' = Inr Undefined"
    by (simp add: inherited_def Object_prototype_names_def)
  obtain v where v: "read_property obj ''walletconnect'' = Inr v"
    by (cases "own obj ''walletconnect''") (simp_all add: read_property_def p iw)
  have hv: "fst (hasKey st ''walletconnect'' w) = Inr (v \<noteq> Null)"
    by (simp add: hasKey_eq getItem_window[OF c s o] v)
  have vn: "own obj ''walletconnect'' = None \<Longrightarrow> v \<noteq> Null"
    using v by (simp add: read_property_def p iw)
  have hk: "hasKey st ''walletconnect'' w1 = (Inr (v \<noteq> Null), w1)"
    by (simp add: hasKey_eq getItem_window[OF c s h1] rd v)
  define obj2 where "obj2 = (if v \<noteq> Null then obj1\<lparr>own := (own obj1)(''walletconnect'' := None)\<rparr> else obj1)"
  define w2 where "w2 = (if v \<noteq> Null then w1\<lparr>heap := (heap w1)(a \<mapsto> obj1\<lparr>own := (own obj1)(''walletconnect'' := None)\<rparr>)\<rparr> else w1)"
  have h2: "heap w2 a = Some obj2" and e2: "events w2 = events w"
    by (simp_all add: w2_def obj2_def h1 e1)
  have w': "close d w = (Inr (), (case respondFrame d of None \<Rightarrow> w2 | Some c \<Rightarrow> w2\<lparr>events := events w2 @ [FrameClosed c]\<rparr>))"
    by (simp add: close_def bind_def cl on_storage_Some[OF d] hk removeItem_window[OF c s h1] return_def
        frame_close_def w2_def split: option.splits)
  have h': "heap (snd (close d w)) a = Some obj2"
    by (simp add: w' h2 split: option.splits)
  have "fst (close d w) = Inr ()" by (simp add: w')
  moreover have "events (snd (close d w)) =
           events w @ (case respondFrame d of None \<Rightarrow> [] | Some f \<Rightarrow> [FrameClosed f])"
    by (simp add: w' e2 split: option.splits)
  moreover have "\<forall>q \<in> set AllowedQueryParams. \<not> has_entry st (snd (close d w)) q"
    by (simp add: has_entry_window[OF s h'] obj2_def o1_param)
  moreover have "has_entry st (snd (close d w)) ''walletconnect'' \<longleftrightarrow> has_entry st w ''walletconnect'' \<and> \<not> (v \<noteq> Null)"
    using vn by (auto simp: has_entry_window[OF s h'] has_entry_window[OF s o] obj2_def o1_wc)
  ultimately show ?thesis
    by (simp add: hv)
qed

lemma parse_abc: "deserialize ''abc'' = Inl SyntaxError"
  by (simp add: deserialize_def JSON_parse_def skip_ws_def is_ws_def is_digit_def)

text \<open>
  C8. \<open>close\<close> does not remove every \<open>walletconnect\<close> entry, and does not always reach
  the communicator. It asks \<open>hasKey\<close>, which reads the entry and compares it with
  \<open>null\<close>: an entry that holds the JSON text \<open>null\<close> is reported absent and stays in the
  store, and an entry that is no JSON text makes \<open>hasKey\<close> throw \<open>SyntaxError\<close>, so that
  \<open>close\<close> rejects before the entry is removed and before the communicator is closed.
  In both stores \<open>walletconnect\<close> is the only key.
\<close>

theorem close_walletconnect_counterexample:
  "has_entry local_store null_walletconnect_world ''walletconnect''
   \<and> fst (close framed_delegate null_walletconnect_world) = Inr ()
   \<and> has_entry local_store (snd (close framed_delegate null_walletconnect_world)) ''walletconnect''
   \<and> has_entry local_store corrupt_walletconnect_world ''walletconnect''
   \<and> fst (close framed_delegate corrupt_walletconnect_world) = Inl SyntaxError
   \<and> has_entry local_store (snd (close framed_delegate corrupt_walletconnect_world)) ''walletconnect''
   \<and> events (snd (close framed_delegate corrupt_walletconnect_world)) = []"
proof -
  have a: "dstorage framed_delegate = Some local_store"
    by (simp add: framed_delegate_def local_delegate_def)
  have n: "fst (hasKey local_store ''walletconnect'' null_walletconnect_world) = Inr False"
    by (simp add: hasKey_eq getItem_web[OF local_store_web] store_of_def null_walletconnect_world_def
        parse_null)
  have c: "fst (hasKey local_store ''walletconnect'' corrupt_walletconnect_world) = Inl SyntaxError"
    by (simp add: hasKey_eq getItem_web[OF local_store_web] store_of_def corrupt_walletconnect_world_def
        parse_abc)
  have e: "has_entry local_store null_walletconnect_world ''walletconnect''"
    "has_entry local_store corrupt_walletconnect_world ''walletconnect''"
    "events corrupt_walletconnect_world = []"
    by (simp_all add: has_entry_web[OF local_store_web] store_of_def null_walletconnect_world_def
        corrupt_walletconnect_world_def web_world_def)
  have 1: "fst (close framed_delegate null_walletconnect_world) = Inr ()
      \<and> (has_entry local_store (snd (close framed_delegate null_walletconnect_world)) ''walletconnect''
           \<longleftrightarrow> has_entry local_store null_walletconnect_world ''walletconnect'' \<and> \<not> False)"
    using close_web[OF local_store_web a, of null_walletconnect_world,
        THEN conjunct2, THEN conjunct1, rule_format, OF n] by blast
  have 2: "fst (close framed_delegate corrupt_walletconnect_world) = Inl SyntaxError
      \<and> has_entry local_store (snd (close framed_delegate corrupt_walletconnect_world)) ''walletconnect''
      \<and> events (snd (close framed_delegate corrupt_walletconnect_world)) = events corrupt_walletconnect_world"
    using close_web[OF local_store_web a, of corrupt_walletconnect_world,
        THEN conjunct2, THEN conjunct2, rule_format, OF c] by blast
  show ?thesis
    using 1 2 e by simp
qed

text \<open>
  C8, as it holds. On a delegate with a connected store, when \<open>close\<close> is over the store
  has no entry under any key of \<open>AllowedQueryParams\<close>. When \<open>hasKey\<close> answers for
  \<open>walletconnect\<close>, \<open>close\<close> returns, the entry \<open>walletconnect\<close> is gone if \<open>hasKey\<close>
  answered true and stays if the store had one and \<open>hasKey\<close> answered false (it holds
  \<open>null\<close>), and the communicator bound as \<open>respondFrame\<close>, if any, has received exactly
  one \<open>close\<close>. When \<open>hasKey\<close> throws \<open>SyntaxError\<close> (the entry is no JSON text),
  \<open>close\<close> rejects with it, the entry stays and no communicator is closed.
\<close>

theorem close_removes_params:
  assumes "dstorage d = Some st" and "attached st w"
  shows "(\<forall>q \<in> set AllowedQueryParams. \<not> has_entry st (snd (close d w)) q)
       \<and> (\<forall>h. fst (hasKey st ''walletconnect'' w) = Inr h \<longrightarrow>
             fst (close d w) = Inr ()
             \<and> (has_entry st (snd (close d w)) ''walletconnect'' \<longleftrightarrow> has_entry st w ''walletconnect'' \<and> \<not> h)
             \<and> events (snd (close d w)) =
                 events w @ (case respondFrame d of None \<Rightarrow> [] | Some f \<Rightarrow> [FrameClosed f]))
       \<and> (fst (hasKey st ''walletconnect'' w) = Inl SyntaxError \<longrightarrow>
             fst (close d w) = Inl SyntaxError
             \<and> has_entry st (snd (close d w)) ''walletconnect''
             \<and> events (snd (close d w)) = events w)"
  using assms(2)
proof (cases rule: attached_cases)
  case (web r)
  then show ?thesis using close_web[OF web assms(1), of w] by blast
next
  case (window a obj)
  then show ?thesis using close_window[OF window assms(1)] by blast
qed

theorem close_removes_params_witness:
  "dstorage framed_delegate = Some local_store \<and> attached local_store walletconnect_world
   \<and> fst (hasKey local_store ''walletconnect'' walletconnect_world) = Inr True
   \<and> has_entry local_store walletconnect_world ''walletconnect''
   \<and> fst (close framed_delegate walletconnect_world) = Inr ()
   \<and> \<not> has_entry local_store (snd (close framed_delegate walletconnect_world)) ''walletconnect''
   \<and> events (snd (close framed_delegate walletconnect_world)) = [FrameClosed (Communicator ''web'')]
   \<and> attached local_store corrupt_walletconnect_world
   \<and> fst (hasKey local_store ''walletconnect'' corrupt_walletconnect_world) = Inl SyntaxError
   \<and> fst (close framed_delegate corrupt_walletconnect_world) = Inl SyntaxError"
proof -
  have a: "dstorage framed_delegate = Some local_store"
    by (simp add: framed_delegate_def local_delegate_def)
  have b: "attached local_store walletconnect_world" "attached local_store corrupt_walletconnect_world"
    by (simp_all add: attached_def local_store_def)
  have p: "deserialize ''{}'' = Inr (Obj [])"
    by (simp add: deserialize_def JSON_parse_def skip_ws_def is_ws_def)
  have c: "fst (hasKey local_store ''walletconnect'' walletconnect_world) = Inr True"
    by (simp add: hasKey_eq getItem_web[OF local_store_web] store_of_def walletconnect_world_def p)
  have c': "fst (hasKey local_store ''walletconnect'' corrupt_walletconnect_world) = Inl SyntaxError"
    by (simp add: hasKey_eq getItem_web[OF local_store_web] store_of_def corrupt_walletconnect_world_def
        parse_abc)
  have e: "has_entry local_store walletconnect_world ''walletconnect''"
    by (simp add: has_entry_web[OF local_store_web] store_of_def walletconnect_world_def)
  have f: "respondFrame framed_delegate = Some (Communicator ''web'')"
    "events walletconnect_world = []"
    by (simp_all add: framed_delegate_def walletconnect_world_def web_world_def)
  have 1: "fst (close framed_delegate walletconnect_world) = Inr ()
      \<and> (has_entry local_store (snd (close framed_delegate walletconnect_world)) ''walletconnect''
           \<longleftrightarrow> has_entry local_store walletconnect_world ''walletconnect'' \<and> \<not> True)
      \<and> events (snd (close framed_delegate walletconnect_world)) =
           events walletconnect_world @ (case respondFrame framed_delegate of None \<Rightarrow> [] | Some f \<Rightarrow> [FrameClosed f])"
    using close_removes_params[OF a b(1), THEN conjunct2, THEN conjunct1, rule_format, OF c] .
  have 2: "fst (close framed_delegate corrupt_walletconnect_world) = Inl SyntaxError"
    using close_removes_params[OF a b(2), THEN conjunct2, THEN conjunct2, rule_format, OF c'] by blast
  show ?thesis
    using a b c c' e 1 2 by (simp add: f)
qed

section \<open>Verifying the returned states\<close>

lemma verify_loop_Cons:
  "verify_loop st (kv # kvs) w =
     (if fst kv \<in> set verificationExcludedStates then verify_loop st kvs w
      else case fst (getItem st (fst kv) w) of
             Inl e \<Rightarrow> (Inl e, w)
           | Inr x \<Rightarrow>
               if x = Null \<or> JSON_stringify x \<noteq> JSON_stringify (Str (snd kv)) then (Inr False, w)
               else verify_loop st kvs w)"
proof -
  obtain r where g: "getItem st (fst kv) w = (r, w)"
    by (metis getItem_world prod.collapse)
  show ?thesis
    by (cases r) (simp_all add: g bind_def hasKey_def return_def)
qed

lemma verify_loop_True:
  "(fst (verify_loop st states w) = Inr True) =
     (\<forall>kv \<in> set states. fst kv \<notin> set verificationExcludedStates \<longrightarrow>
        fst (hasKey st (fst kv) w) = Inr True
        \<and> (\<exists>x. fst (getItem st (fst kv) w) = Inr x
                \<and> JSON_stringify x = JSON_stringify (Str (snd kv))))"
proof (induction states)
  case Nil
  show ?case by (simp add: return_def)
next
  case (Cons kv kvs)
  show ?case
  proof (cases "fst kv \<in> set verificationExcludedStates")
    case True
    then show ?thesis
      using Cons.IH by (simp add: verify_loop_Cons del: verify_loop.simps)
  next
    case False
    show ?thesis
    proof (cases "fst (getItem st (fst kv) w)")
      case (Inl e)
      then show ?thesis
        using False by (simp add: verify_loop_Cons hasKey_eq del: verify_loop.simps)
    next
      case (Inr x)
      then show ?thesis
        using False Cons.IH
        by (auto simp: verify_loop_Cons hasKey_eq simp del: verify_loop.simps)
    qed
  qed
qed

lemma verify_loop_filter:
  "verify_loop st (filter (\<lambda>kv. fst kv \<notin> set verificationExcludedStates) states) w
     = verify_loop st states w"
proof (induction states)
  case Nil
  show ?case by simp
next
  case (Cons kv kvs)
  show ?case
  proof (cases "fst kv \<in> set verificationExcludedStates")
    case True
    then show ?thesis
      using Cons.IH by (simp add: verify_loop_Cons del: verify_loop.simps)
  next
    case False
    then show ?thesis
      using Cons.IH
      by (simp add: verify_loop_Cons del: verify_loop.simps split: sum.splits)
  qed
qed

lemma isConnected_True_cases:
  assumes "fst (isConnected st w) = Inr True"
  obtains (window) "cls st = WebWindowStore" "isConnected st w = (Inr True, w)"
  | (web) r where "is_web st r"
proof (cases "cls st = WebWindowStore")
  case True
  with assms have "isConnected st w = (Inr True, w)"
    by (simp add: isConnected_window)
  with True show ?thesis by (rule window)
next
  case False
  with assms have def: "isStorageDefined st"
    by (auto simp: isConnected_def return_def split: if_splits)
  then obtain x where x: "storage st = Ref x"
    by (cases "storage st") (simp_all add: isStorageDefined_def)
  have "x = LocalRef \<or> x = SessionRef"
  proof (cases x)
    case (ObjRef a)
    with assms False def x show ?thesis
      by (simp add: isConnected_def bind_def setItem_def naive_setItem_def throw_def Let_def)
  qed simp_all
  with False x have "is_web st x" by (simp add: is_web_def)
  then show ?thesis by (rule web)
qed

lemma getItem_after_ping:
  assumes "is_web st r"
  shows "fst (getItem st k (upd_store r (\<lambda>m. m(getPrefixedName st pingKey := None)) w))
           = (if k = pingKey then Inr Null else fst (getItem st k w))"
proof -
  from assms have "r = LocalRef \<or> r = SessionRef" by (simp add: is_web_def)
  then show ?thesis
    by (auto simp: getItem_web[OF assms] split: option.splits sum.splits)
qed

lemma verify_loop_prefix:
  "\<forall>p \<in> set pre. fst p \<in> set verificationExcludedStates
        \<or> (\<exists>x. fst (getItem st (fst p) w) = Inr x \<and> x \<noteq> Null
                 \<and> JSON_stringify x = JSON_stringify (Str (snd p))) \<Longrightarrow>
   verify_loop st (pre @ rest) w = verify_loop st rest w"
proof (induction pre)
  case Nil
  show ?case by simp
next
  case (Cons p pre)
  then have IH: "verify_loop st (pre @ rest) w = verify_loop st rest w" by simp
  from Cons.prems have "fst p \<in> set verificationExcludedStates
        \<or> (\<exists>x. fst (getItem st (fst p) w) = Inr x \<and> x \<noteq> Null
                 \<and> JSON_stringify x = JSON_stringify (Str (snd p)))" by simp
  then show ?case
  proof
    assume "fst p \<in> set verificationExcludedStates"
    then show ?thesis
      using IH by (simp add: verify_loop_Cons del: verify_loop.simps)
  next
    assume "\<exists>x. fst (getItem st (fst p) w) = Inr x \<and> x \<noteq> Null
                 \<and> JSON_stringify x = JSON_stringify (Str (snd p))"
    then obtain x where "fst (getItem st (fst p) w) = Inr x" "x \<noteq> Null"
      "JSON_stringify x = JSON_stringify (Str (snd p))" by blast
    then show ?thesis
      using IH by (simp add: verify_loop_Cons del: verify_loop.simps)
  qed
qed

lemma verifyStates_loop:
  assumes d: "dstorage d = Some st" and c: "fst (isConnected st w) = Inr True"
  shows "\<exists>w1. (\<forall>states. verifyStates d states w = verify_loop st states w1)
             \<and> (\<forall>k. fst (getItem st k w1) =
                      (if cls st \<noteq> WebWindowStore \<and> k = pingKey then Inr Null
                       else fst (getItem st k w)))"
  using c
proof (cases rule: isConnected_True_cases)
  case window
  then have "\<forall>states. verifyStates d states w = verify_loop st states w"
    by (simp add: verifyStates_def bind_def on_storage_Some[OF d])
  with window(1) show ?thesis by auto
next
  case (web r)
  let ?w1 = "upd_store r (\<lambda>m. m(getPrefixedName st pingKey := None)) w"
  have nw: "cls st \<noteq> WebWindowStore"
    using web by (simp add: is_web_def)
  have v: "\<forall>states. verifyStates d states w = verify_loop st states ?w1"
    by (simp add: verifyStates_def bind_def on_storage_Some[OF d] isConnected_web[OF web])
  have g: "\<forall>k. fst (getItem st k ?w1) =
             (if cls st \<noteq> WebWindowStore \<and> k = pingKey then Inr Null else fst (getItem st k w))"
    using nw by (simp add: getItem_after_ping[OF web])
  from v g show ?thesis by blast
qed

lemma entry_passes_after:
  assumes g: "\<forall>k. fst (getItem st k w1) =
                 (if cls st \<noteq> WebWindowStore \<and> k = pingKey then Inr Null
                  else fst (getItem st k w))"
  shows "entry_passes st w kv \<longleftrightarrow>
           fst kv \<in> set verificationExcludedStates
           \<or> (\<exists>x. fst (getItem st (fst kv) w1) = Inr x \<and> x \<noteq> Null
                   \<and> JSON_stringify x = JSON_stringify (Str (snd kv)))"
proof (cases "cls st \<noteq> WebWindowStore \<and> fst kv = pingKey")
  case True
  then show ?thesis
    by (simp add: entry_passes_def g)
next
  case False
  then have e: "fst (getItem st (fst kv) w1) = fst (getItem st (fst kv) w)"
    using g by auto
  show ?thesis
    using False
    by (cases "fst (getItem st (fst kv) w)") (auto simp: entry_passes_def e hasKey_eq)
qed

lemma verify_loop_all:
  "(fst (verify_loop st states w) = Inr True) =
     (\<forall>kv \<in> set states. fst kv \<in> set verificationExcludedStates
         \<or> (\<exists>x. fst (getItem st (fst kv) w) = Inr x \<and> x \<noteq> Null
                 \<and> JSON_stringify x = JSON_stringify (Str (snd kv))))"
  unfolding verify_loop_True
  by (rule ball_cong[OF refl]) (auto simp: hasKey_eq split: sum.splits)

text \<open>
  C1, as the code has it. \<open>verifyStates\<close> returns false when the store is not connected.
  When it is connected, \<open>verifyStates\<close> goes through the entries of the map in their
  order and skips the excluded keys. It returns true exactly when every entry passes: its
  key is excluded, or the key is reported present by \<open>hasKey\<close>, holds a value whose JSON
  text equals that of the provided string, and, on a \<open>Storage\<close>-backed class, is not the
  key \<open>__ping__\<close>, which the connectivity check writes and deletes before the
  comparison. At the first entry that does not pass, it returns false when the key is
  absent or holds \<open>null\<close> (\<open>hasKey\<close> answers false), when the stored value has another
  JSON text, and when the key is \<open>__ping__\<close> on a \<open>Storage\<close>-backed class; it rejects
  with the exception of \<open>getItem\<close> (\<open>SyntaxError\<close> for an entry that is no JSON text) when
  \<open>getItem\<close> throws. The result is that of the map without its excluded keys.
\<close>

theorem verifyStates_iff:
  assumes "dstorage d = Some st"
  shows "(fst (isConnected st w) = Inr False \<longrightarrow> fst (verifyStates d states w) = Inr False)
       \<and> (fst (isConnected st w) = Inr True \<longrightarrow>
            (fst (verifyStates d states w) = Inr True) = (\<forall>kv \<in> set states. entry_passes st w kv))
       \<and> (fst (isConnected st w) = Inr True \<longrightarrow>
            (\<forall>pre kv post. states = pre @ kv # post \<longrightarrow> (\<forall>p \<in> set pre. entry_passes st w p) \<longrightarrow>
               fst kv \<notin> set verificationExcludedStates \<longrightarrow>
               (cls st \<noteq> WebWindowStore \<and> fst kv = pingKey)
               \<or> fst (hasKey st (fst kv) w) = Inr False
               \<or> (\<exists>x. fst (getItem st (fst kv) w) = Inr x
                       \<and> JSON_stringify x \<noteq> JSON_stringify (Str (snd kv))) \<longrightarrow>
               fst (verifyStates d states w) = Inr False))
       \<and> (fst (isConnected st w) = Inr True \<longrightarrow>
            (\<forall>pre kv post e. states = pre @ kv # post \<longrightarrow> (\<forall>p \<in> set pre. entry_passes st w p) \<longrightarrow>
               fst kv \<notin> set verificationExcludedStates \<longrightarrow>
               (cls st \<noteq> WebWindowStore \<longrightarrow> fst kv \<noteq> pingKey) \<longrightarrow>
               fst (getItem st (fst kv) w) = Inl e \<longrightarrow>
               fst (verifyStates d states w) = Inl e))
       \<and> verifyStates d states w =
           verifyStates d (filter (\<lambda>kv. fst kv \<notin> set verificationExcludedStates) states) w"
proof -
  have 1: "fst (isConnected st w) = Inr False \<longrightarrow> fst (verifyStates d states w) = Inr False"
    by (cases "isConnected st w")
       (auto simp: verifyStates_def bind_def on_storage_Some[OF assms] return_def)
  have 5: "verifyStates d states w =
           verifyStates d (filter (\<lambda>kv. fst kv \<notin> set verificationExcludedStates) states) w"
  proof -
    obtain r w' where c: "isConnected st w = (r, w')"
      by (cases "isConnected st w")
    show ?thesis
    proof (cases r)
      case (Inl e)
      then show ?thesis
        by (simp add: verifyStates_def bind_def on_storage_Some[OF assms] c)
    next
      case (Inr b)
      then show ?thesis
        by (cases b) (simp_all add: verifyStates_def bind_def on_storage_Some[OF assms] c
            verify_loop_filter)
    qed
  qed
  have 234: "((fst (verifyStates d states w) = Inr True) = (\<forall>kv \<in> set states. entry_passes st w kv))
       \<and> (\<forall>pre kv post. states = pre @ kv # post \<longrightarrow> (\<forall>p \<in> set pre. entry_passes st w p) \<longrightarrow>
               fst kv \<notin> set verificationExcludedStates \<longrightarrow>
               (cls st \<noteq> WebWindowStore \<and> fst kv = pingKey)
               \<or> fst (hasKey st (fst kv) w) = Inr False
               \<or> (\<exists>x. fst (getItem st (fst kv) w) = Inr x
                       \<and> JSON_stringify x \<noteq> JSON_stringify (Str (snd kv))) \<longrightarrow>
               fst (verifyStates d states w) = Inr False)
       \<and> (\<forall>pre kv post e. states = pre @ kv # post \<longrightarrow> (\<forall>p \<in> set pre. entry_passes st w p) \<longrightarrow>
               fst kv \<notin> set verificationExcludedStates \<longrightarrow>
               (cls st \<noteq> WebWindowStore \<longrightarrow> fst kv \<noteq> pingKey) \<longrightarrow>
               fst (getItem st (fst kv) w) = Inl e \<longrightarrow>
               fst (verifyStates d states w) = Inl e)"
    if c: "fst (isConnected st w) = Inr True"
  proof -
    from verifyStates_loop[OF assms c] obtain w1
      where v: "\<And>states. verifyStates d states w = verify_loop st states w1"
        and g: "\<forall>k. fst (getItem st k w1) =
                      (if cls st \<noteq> WebWindowStore \<and> k = pingKey then Inr Null
                       else fst (getItem st k w))"
      by blast
    note ep = entry_passes_after[OF g]
    have t: "(fst (verifyStates d states w) = Inr True) = (\<forall>kv \<in> set states. entry_passes st w kv)"
      unfolding v verify_loop_all by (simp only: ep)
    have pre: "verify_loop st (pre @ rest) w1 = verify_loop st rest w1"
      if "\<forall>p \<in> set pre. entry_passes st w p" for pre rest
      using that by (intro verify_loop_prefix) (simp only: ep)
    have f: "fst (verifyStates d states w) = Inr False"
      if s: "states = pre @ kv # post" and p: "\<forall>p \<in> set pre. entry_passes st w p"
        and x: "fst kv \<notin> set verificationExcludedStates"
        and b: "(cls st \<noteq> WebWindowStore \<and> fst kv = pingKey)
               \<or> fst (hasKey st (fst kv) w) = Inr False
               \<or> (\<exists>x. fst (getItem st (fst kv) w) = Inr x
                       \<and> JSON_stringify x \<noteq> JSON_stringify (Str (snd kv)))"
      for pre kv post
    proof -
      have "fst (getItem st (fst kv) w1) = Inr Null
            \<or> (\<exists>x. fst (getItem st (fst kv) w1) = Inr x
                       \<and> JSON_stringify x \<noteq> JSON_stringify (Str (snd kv)))"
        using b g by (cases "fst (getItem st (fst kv) w)") (auto simp: hasKey_eq)
      then have "fst (verify_loop st (kv # post) w1) = Inr False"
        using x by (auto simp: verify_loop_Cons simp del: verify_loop.simps)
      then show ?thesis
        by (simp only: v s pre[OF p])
    qed
    have e: "fst (verifyStates d states w) = Inl e"
      if s: "states = pre @ kv # post" and p: "\<forall>p \<in> set pre. entry_passes st w p"
        and x: "fst kv \<notin> set verificationExcludedStates"
        and n: "cls st \<noteq> WebWindowStore \<longrightarrow> fst kv \<noteq> pingKey"
        and b: "fst (getItem st (fst kv) w) = Inl e"
      for pre kv post e
    proof -
      have "fst (getItem st (fst kv) w1) = Inl e"
        using b n g by auto
      then have "fst (verify_loop st (kv # post) w1) = Inl e"
        using x by (simp add: verify_loop_Cons del: verify_loop.simps)
      then show ?thesis
        by (simp only: v s pre[OF p])
    qed
    from t f e show ?thesis by blast
  qed
  from 1 5 234 show ?thesis by blast
qed

lemma parse_quoted_abc: "deserialize ''\"abc\"'' = Inr (Str ''abc'')"
  by (simp add: deserialize_def JSON_parse_def skip_ws_def is_ws_def cons_fst_def)

lemma local_store_connected: "fst (isConnected local_store w) = Inr True"
  by (simp add: isConnected_web[OF local_store_web])

theorem verifyStates_iff_witness:
  "dstorage local_delegate = Some local_store
   \<and> fst (isConnected local_store state_world) = Inr True
   \<and> fst (verifyStates local_delegate [(''state'', ''abc''), (''code'', ''xyz'')] state_world) = Inr True
   \<and> fst (verifyStates local_delegate [(''code'', ''xyz''), (''state'', ''def'')] state_world) = Inr False
   \<and> fst (verifyStates local_delegate [(''code'', ''xyz''), (''nonce'', ''abc'')] state_world) = Inr False
   \<and> fst (verifyStates local_delegate [(''code'', ''xyz''), (''state'', ''abc'')] corrupt_state_world)
       = Inl SyntaxError"
proof -
  have a: "dstorage local_delegate = Some local_store"
    by (simp add: local_delegate_def)
  have c: "cls local_store \<noteq> WebWindowStore"
    by (simp add: local_store_def)
  have g: "fst (getItem local_store ''state'' state_world) = Inr (Str ''abc'')"
    by (simp add: getItem_web[OF local_store_web] store_of_def state_world_def parse_quoted_abc)
  have gn: "fst (getItem local_store ''nonce'' state_world) = Inr Null"
    by (simp add: getItem_web[OF local_store_web] store_of_def state_world_def)
  have gc: "fst (getItem local_store ''state'' corrupt_state_world) = Inl SyntaxError"
    by (simp add: getItem_web[OF local_store_web] store_of_def corrupt_state_world_def parse_abc)
  have q: "JSON_stringify (Str ''abc'') \<noteq> JSON_stringify (Str ''def'')"
    by (simp add: JSON_stringify_def quote_def quote_char_def)
  have e: "set verificationExcludedStates = {''code'', ''error'', ''error_code''}"
    by (simp add: verificationExcludedStates_def)
  have pc: "\<And>w. entry_passes local_store w (''code'', ''xyz'')"
    by (simp add: entry_passes_def e)
  have ps: "entry_passes local_store state_world (''state'', ''abc'')"
    by (simp add: entry_passes_def e c g hasKey_eq pingKey_def)
  have t: "fst (verifyStates local_delegate [(''state'', ''abc''), (''code'', ''xyz'')] state_world) = Inr True"
    using verifyStates_iff[OF a, of state_world "[(''state'', ''abc''), (''code'', ''xyz'')]",
        THEN conjunct2, THEN conjunct1, rule_format, OF local_store_connected]
    by (simp add: pc ps)
  have f: "fst (verifyStates local_delegate [(''code'', ''xyz''), (''state'', ''def'')] state_world) = Inr False"
    by (rule verifyStates_iff[OF a, THEN conjunct2, THEN conjunct2, THEN conjunct1, rule_format,
        OF local_store_connected, where pre = "[(''code'', ''xyz'')]" and kv = "(''state'', ''def'')"
          and post = "[]"])
       (simp_all add: pc e g q)
  have f2: "fst (verifyStates local_delegate [(''code'', ''xyz''), (''nonce'', ''abc'')] state_world) = Inr False"
    by (rule verifyStates_iff[OF a, THEN conjunct2, THEN conjunct2, THEN conjunct1, rule_format,
        OF local_store_connected, where pre = "[(''code'', ''xyz'')]" and kv = "(''nonce'', ''abc'')"
          and post = "[]"])
       (simp_all add: pc e gn hasKey_eq)
  have s: "fst (verifyStates local_delegate [(''code'', ''xyz''), (''state'', ''abc'')] corrupt_state_world)
       = Inl SyntaxError"
    by (rule verifyStates_iff[OF a, THEN conjunct2, THEN conjunct2, THEN conjunct2, THEN conjunct1,
        rule_format, OF local_store_connected, where pre = "[(''code'', ''xyz'')]"
          and kv = "(''state'', ''abc'')" and post = "[]"])
       (simp_all add: pc e gc pingKey_def)
  show ?thesis
    using a t f f2 s by (simp add: local_store_connected)
qed

text \<open>
  The sentence of C1 as it is written fails on the sentinel key: \<open>localStorage\<close> holds
  \<open>__ping__\<close> with the JSON text of \<open>abc\<close>, the store is connected, the key is not
  excluded, it is present and its value serialises like the provided one, and
  \<open>verifyStates\<close> returns false.
\<close>

theorem verifyStates_ping_counterexample:
  "dstorage local_delegate = Some local_store
   \<and> fst (isConnected local_store ping_world) = Inr True
   \<and> ''__ping__'' \<notin> set verificationExcludedStates
   \<and> fst (hasKey local_store ''__ping__'' ping_world) = Inr True
   \<and> fst (getItem local_store ''__ping__'' ping_world) = Inr (Str ''abc'')
   \<and> fst (verifyStates local_delegate [(''__ping__'', ''abc'')] ping_world) = Inr False"
proof -
  have g: "fst (getItem local_store ''__ping__'' ping_world) = Inr (Str ''abc'')"
    by (simp add: getItem_web[OF local_store_web] store_of_def ping_world_def parse_quoted_abc)
  have v: "fst (verifyStates local_delegate [(''__ping__'', ''abc'')] ping_world) = Inr False"
    by (simp add: verifyStates_def bind_def on_storage_def local_delegate_def
        isConnected_web[OF local_store_web] verify_loop_Cons getItem_web[OF local_store_web]
        pingKey_def verificationExcludedStates_def del: verify_loop.simps)
  show ?thesis
    using g v
    by (simp add: local_delegate_def local_store_connected verificationExcludedStates_def hasKey_eq)
qed

section \<open>JSON.parse inverts JSON.stringify\<close>

lemma of_char_lt_256: "(of_char c :: nat) < 256"
  by (cases c) (simp add: less_Suc_eq_le)

lemma hex_val_hex_char: "d < 16 \<Longrightarrow> hex_val (hex_char d) = Some d"
  by (auto simp: hex_val_def hex_char_def Let_def)

lemma hex_val_zero: "hex_val CHR ''0'' = Some 0"
  by (simp add: hex_val_def)

lemma unicode4_control:
  assumes "(of_char c :: nat) < 32"
  shows "unicode4 CHR ''0'' CHR ''0'' (hex_char (of_char c div 16)) (hex_char (of_char c mod 16)) = Inr c"
proof -
  have a: "(of_char c :: nat) div 16 < 16" using assms by simp
  have b: "(of_char c :: nat) mod 16 < 16" by simp
  have "char_of (16 * ((of_char c :: nat) div 16) + of_char c mod 16) = c"
    by simp
  then show ?thesis
    by (simp add: unicode4_def hex_val_zero hex_val_hex_char[OF a] hex_val_hex_char[OF b])
qed

lemma parse_chars_quote_char:
  "parse_chars (quote_char c @ t) = cons_fst c (parse_chars t)"
proof -
  consider (q) "c = CHR ''\"''" | (b) "c = CHR 0x5C" | (c8) "c = CHR 0x08" | (c9) "c = CHR 0x09"
    | (ca) "c = CHR 0x0A" | (cc) "c = CHR 0x0C" | (cd) "c = CHR 0x0D"
    | (ctl) "c \<noteq> CHR ''\"''" "c \<noteq> CHR 0x5C" "c \<noteq> CHR 0x08" "c \<noteq> CHR 0x09" "c \<noteq> CHR 0x0A"
        "c \<noteq> CHR 0x0C" "c \<noteq> CHR 0x0D" "(of_char c :: nat) < 32"
    | (plain) "c \<noteq> CHR ''\"''" "c \<noteq> CHR 0x5C" "\<not> (of_char c :: nat) < 32"
    by (cases "(of_char c :: nat) < 32") auto
  then show ?thesis
  proof cases
    case ctl
    then show ?thesis
      by (simp add: quote_char_def unicode4_control)
  next
    case plain
    then show ?thesis
      by (auto simp: quote_char_def)
  qed (simp_all add: quote_char_def unescape_def)
qed

lemma parse_chars_quoted:
  "parse_chars (concat (map quote_char s) @ CHR ''\"'' # rest) = Inr (s, rest)"
proof (induction s)
  case Nil
  show ?case by simp
next
  case (Cons c s)
  then show ?case
    by (simp add: parse_chars_quote_char cons_fst_def del: parse_chars.simps(2))
qed

lemma is_digit_digit_char: "d < 10 \<Longrightarrow> is_digit (digit_char d)"
  by (simp add: is_digit_def digit_char_def)

lemma digit_val_digit_char: "d < 10 \<Longrightarrow> digit_val (digit_char d) = d"
  by (simp add: digit_val_def digit_char_def)

lemma nat_digits_digits: "\<forall>c \<in> set (nat_digits n). is_digit c"
proof (induction n rule: nat_digits.induct)
  case (1 n)
  show ?case
  proof (cases "n < 10")
    case True
    then show ?thesis by (subst nat_digits.simps) (simp add: is_digit_digit_char)
  next
    case False
    then show ?thesis
      using 1 by (subst nat_digits.simps) (simp add: is_digit_digit_char)
  qed
qed

lemma nat_digits_nonempty: "nat_digits n \<noteq> []"
  by (subst nat_digits.simps) simp

lemma digits_nat_snoc: "digits_nat (ds @ [c]) = 10 * digits_nat ds + digit_val c"
  by (simp add: digits_nat_def)

lemma digits_nat_nat_digits: "digits_nat (nat_digits n) = n"
proof (induction n rule: nat_digits.induct)
  case (1 n)
  show ?case
  proof (cases "n < 10")
    case True
    then show ?thesis by (subst nat_digits.simps) (simp add: digits_nat_def digit_val_digit_char)
  next
    case False
    then have "nat_digits n = nat_digits (n div 10) @ [digit_char (n mod 10)]"
      by (subst nat_digits.simps) simp
    then show ?thesis
      using 1 False by (simp add: digits_nat_snoc digit_val_digit_char)
  qed
qed

lemma nat_digits_leading:
  "hd (nat_digits n) = CHR ''0'' \<Longrightarrow> length (nat_digits n) = 1"
proof (induction n rule: nat_digits.induct)
  case (1 n)
  show ?case
  proof (cases "n < 10")
    case True
    then show ?thesis by (subst nat_digits.simps) simp
  next
    case False
    then have eq: "nat_digits n = nat_digits (n div 10) @ [digit_char (n mod 10)]"
      by (subst nat_digits.simps) simp
    with "1.prems" have "hd (nat_digits (n div 10)) = CHR ''0''"
      by (simp add: nat_digits_nonempty hd_append)
    with 1 False have "length (nat_digits (n div 10)) = 1" by simp
    then obtain c where c: "nat_digits (n div 10) = [c]"
      by (cases "nat_digits (n div 10)") simp_all
    with \<open>hd (nat_digits (n div 10)) = CHR ''0''\<close> have "nat_digits (n div 10) = ''0''" by simp
    then have "digits_nat (nat_digits (n div 10)) = 0"
      by (simp add: digits_nat_def digit_val_def)
    then have "n div 10 = 0" by (simp only: digits_nat_nat_digits)
    with False show ?thesis by simp
  qed
qed

lemma not_digit_minus: "\<not> is_digit CHR ''-''"
  by (simp add: is_digit_def)

lemma no_digit_start_continues: "no_digit_start rest \<Longrightarrow> \<not> number_continues rest"
  by (auto simp: no_digit_start_def number_continues_def split: list.splits)

lemma no_digit_start_digit: "no_digit_start rest \<Longrightarrow> (case rest of [] \<Rightarrow> True | c # _ \<Rightarrow> \<not> is_digit c)"
  by (auto simp: no_digit_start_def split: list.splits)

lemma sint_54_range: "- (2 ^ 53) \<le> sint (n :: 54 word) \<and> sint n < 2 ^ 53"
  using sint_ge[of n] sint_lt[of n] by simp

lemma parse_number_int_digits:
  assumes "no_digit_start rest"
  shows "parse_number (int_digits (sint (n :: 54 word)) @ rest) = Inr (Num n, rest)"
proof -
  define i where "i = sint n"
  let ?n = "nat_digits (nat \<bar>i\<bar>)"
  have rng: "- (2 ^ 53) \<le> i" "i < 2 ^ 53"
    using sint_54_range[of n] by (simp_all add: i_def)
  have wi: "word_of_int i = n"
    by (simp add: i_def)
  have nc: "\<not> number_continues rest"
    by (rule no_digit_start_continues[OF assms])
  have tw: "takeWhile is_digit (?n @ rest) = ?n" "dropWhile is_digit (?n @ rest) = rest"
    using nat_digits_digits[of "nat \<bar>i\<bar>"] no_digit_start_digit[OF assms]
    by (auto simp: takeWhile_append dropWhile_append split: list.splits)
  have lead: "\<not> (hd ?n = CHR ''0'' \<and> 1 < length ?n)"
    using nat_digits_leading[of "nat \<bar>i\<bar>"] by auto
  have hdd: "hd ?n \<noteq> CHR ''-''"
    using nat_digits_digits[of "nat \<bar>i\<bar>"] nat_digits_nonempty[of "nat \<bar>i\<bar>"] not_digit_minus
    by (cases ?n) auto
  have "parse_number (int_digits i @ rest) = Inr (Num n, rest)"
  proof (cases "i < 0")
    case True
    then have "int_digits i = CHR ''-'' # ?n"
      by (simp add: int_digits_def abs_if)
    then show ?thesis
      using True lead tw nc rng
      by (simp add: parse_number_def Let_def nat_digits_nonempty digits_nat_nat_digits wi)
  next
    case False
    then have id: "int_digits i = ?n"
      by (simp add: int_digits_def abs_if)
    have "hd (?n @ rest) \<noteq> CHR ''-''"
      using hdd nat_digits_nonempty[of "nat \<bar>i\<bar>"] by simp
    then show ?thesis
      using False lead tw nc rng
      by (simp add: id parse_number_def Let_def nat_digits_nonempty digits_nat_nat_digits wi)
  qed
  then show ?thesis by (simp add: i_def)
qed

lemma pv_null: "parse_value (Suc m) (''null'' @ rest) = Inr (Null, rest)"
  by (simp add: skip_ws_def is_ws_def)

lemma pv_true: "parse_value (Suc m) (''true'' @ rest) = Inr (Bool True, rest)"
  by (simp add: skip_ws_def is_ws_def)

lemma pv_false: "parse_value (Suc m) (''false'' @ rest) = Inr (Bool False, rest)"
  by (simp add: skip_ws_def is_ws_def)

lemma pv_str: "parse_value (Suc m) (quote s @ rest) = Inr (Str s, rest)"
  by (simp add: quote_def skip_ws_def is_ws_def parse_chars_quoted)

lemma int_digits_first:
  obtains c cs where "int_digits i = c # cs" "c = CHR ''-'' \<or> is_digit c"
proof (cases "i < 0")
  case True
  then show ?thesis by (intro that[of "CHR ''-''"]) (simp_all add: int_digits_def)
next
  case False
  obtain c cs where n: "nat_digits (nat i) = c # cs"
    using nat_digits_nonempty[of "nat i"] by (cases "nat_digits (nat i)") auto
  then have "is_digit c"
    using nat_digits_digits[of "nat i"] by simp
  with False n show ?thesis by (intro that[of c cs]) (simp_all add: int_digits_def)
qed

lemma number_start:
  assumes "c = CHR ''-'' \<or> is_digit c"
  shows "\<not> is_ws c" "c \<noteq> CHR ''n''" "c \<noteq> CHR ''t''" "c \<noteq> CHR ''f''" "c \<noteq> CHR ''\"''"
    "c \<noteq> CHR ''[''" "c \<noteq> CHR ''{''" "c \<noteq> CHR '']''" "c \<noteq> CHR ''}''"
  using assms by (auto simp: is_digit_def is_ws_def)

lemma pv_num:
  assumes "no_digit_start rest"
  shows "parse_value (Suc m) (int_digits (sint (n :: 54 word)) @ rest) = Inr (Num n, rest)"
proof -
  obtain c cs where i: "int_digits (sint n) = c # cs" and c: "c = CHR ''-'' \<or> is_digit c"
    by (rule int_digits_first)
  have "parse_number (c # cs @ rest) = Inr (Num n, rest)"
    using parse_number_int_digits[OF assms, of n] by (simp add: i)
  then show ?thesis
    using c number_start[OF c] by (simp add: i skip_ws_def)
qed

lemma ser_first:
  obtains c cs where "ser v = c # cs" "\<not> is_ws c" "c \<noteq> CHR '']''" "c \<noteq> CHR ''}''"
proof (cases v)
  case (Num n)
  obtain c cs where i: "int_digits (sint n) = c # cs" and c: "c = CHR ''-'' \<or> is_digit c"
    by (rule int_digits_first)
  show ?thesis
    using number_start[OF c] by (intro that[of c cs]) (simp_all add: Num i)
next
  case (Bool b)
  then show ?thesis
    by (cases b) (auto intro!: that simp: is_ws_def)
qed (auto intro!: that simp: is_ws_def quote_def)

lemma no_digit_start_sep [simp]:
  "no_digit_start (CHR '','' # r)" "no_digit_start (CHR '']'' # r)" "no_digit_start (CHR ''}'' # r)"
  "no_digit_start []"
  by (simp_all add: no_digit_start_def is_digit_def)

lemma skip_ws_sep [simp]:
  "skip_ws (CHR '','' # r) = CHR '','' # r" "skip_ws (CHR '']'' # r) = CHR '']'' # r"
  "skip_ws (CHR ''}'' # r) = CHR ''}'' # r" "skip_ws (CHR '':'' # r) = CHR '':'' # r"
  "skip_ws (CHR ''\"'' # r) = CHR ''\"'' # r"
  by (simp_all add: skip_ws_def is_ws_def)

lemma pv_arr_empty: "parse_value (Suc m) (''[]'' @ rest) = Inr (Arr [], rest)"
  by (simp add: skip_ws_def is_ws_def)

lemma pv_obj_empty: "parse_value (Suc m) (''{}'' @ rest) = Inr (Obj [], rest)"
  by (simp add: skip_ws_def is_ws_def)

lemma pv_arr:
  assumes "s = c # cs" "\<not> is_ws c" "c \<noteq> CHR '']''"
  shows "parse_value (Suc m) (CHR ''['' # s) =
           (case parse_elems m s of Inl e \<Rightarrow> Inl e | Inr p \<Rightarrow> Inr (Arr (fst p), snd p))"
  using assms by (simp add: skip_ws_def is_ws_def)

lemma pv_obj:
  "parse_value (Suc m) (CHR ''{'' # CHR ''\"'' # cs) =
     (case parse_members m (CHR ''\"'' # cs) of
        Inl e \<Rightarrow> Inl e
      | Inr p \<Rightarrow> Inr (make_object (fst p), snd p))"
  by (simp add: skip_ws_def is_ws_def)

lemma pe_last:
  "parse_value m s = Inr (v, CHR '']'' # r) \<Longrightarrow> parse_elems (Suc m) s = Inr ([v], r)"
  by simp

lemma pe_more:
  "parse_value m s = Inr (v, CHR '','' # r) \<Longrightarrow> parse_elems (Suc m) s = cons_fst v (parse_elems m r)"
  by simp

lemma pm_last:
  "parse_value m s = Inr (v, CHR ''}'' # r) \<Longrightarrow>
   parse_members (Suc m) (quote k @ CHR '':'' # s) = Inr ([(k, v)], r)"
  by (simp add: quote_def parse_chars_quoted)

lemma pm_more:
  "parse_value m s = Inr (v, CHR '','' # r) \<Longrightarrow>
   parse_members (Suc m) (quote k @ CHR '':'' # s) = cons_fst (k, v) (parse_members m r)"
  by (simp add: quote_def parse_chars_quoted)

lemma parse_elems_ser:
  assumes IH: "\<And>x n rest. x \<in> set xs \<Longrightarrow> need x \<le> n \<Longrightarrow> well_formed x \<Longrightarrow> no_digit_start rest \<Longrightarrow>
                 parse_value n (ser x @ rest) = Inr (canon x, rest)"
  shows "list_all well_formed xs \<Longrightarrow> xs \<noteq> [] \<Longrightarrow> sum_list (map (\<lambda>x. Suc (need x)) xs) \<le> n \<Longrightarrow>
         parse_elems n (join_comma (map ser xs) @ CHR '']'' # rest) = Inr (map canon xs, rest)"
  using IH
proof (induction xs arbitrary: n)
  case Nil
  then show ?case by simp
next
  case (Cons x xs)
  from Cons.prems(3) obtain m where n: "n = Suc m" and mx: "need x \<le> m"
    and ms: "sum_list (map (\<lambda>x. Suc (need x)) xs) \<le> m"
    by (cases n) auto
  from Cons.prems(1) have dx: "well_formed x" and dxs: "list_all well_formed xs"
    by simp_all
  show ?case
  proof (cases xs)
    case Nil
    have "parse_value m (ser x @ CHR '']'' # rest) = Inr (canon x, CHR '']'' # rest)"
      by (rule Cons.prems(4)) (simp_all add: mx dx)
    then show ?thesis
      by (simp only: n Nil list.map join_comma.simps pe_last)
  next
    case (Cons y ys)
    let ?t = "join_comma (map ser xs) @ CHR '']'' # rest"
    have "parse_value m (ser x @ CHR '','' # ?t) = Inr (canon x, CHR '','' # ?t)"
      by (rule Cons.prems(4)) (simp_all add: mx dx)
    then have "parse_elems (Suc m) (ser x @ CHR '','' # ?t) = cons_fst (canon x) (parse_elems m ?t)"
      by (rule pe_more)
    moreover have "parse_elems m ?t = Inr (map canon xs, rest)"
      by (rule Cons.IH[OF dxs _ ms]) (simp_all add: Cons Cons.prems(4))
    moreover have "join_comma (map ser (x # xs)) @ CHR '']'' # rest = ser x @ CHR '','' # ?t"
      by (simp add: Cons)
    ultimately show ?thesis
      by (simp add: n cons_fst_def del: parse_elems.simps parse_value.simps)
  qed
qed

lemma parse_members_ser:
  assumes IH: "\<And>kv n rest. kv \<in> set kvs \<Longrightarrow> need (snd kv) \<le> n \<Longrightarrow> well_formed (snd kv) \<Longrightarrow>
                 no_digit_start rest \<Longrightarrow>
                 parse_value n (ser (snd kv) @ rest) = Inr (canon (snd kv), rest)"
  shows "list_all (\<lambda>kv. well_formed (snd kv)) kvs \<Longrightarrow> kvs \<noteq> [] \<Longrightarrow>
         sum_list (map (\<lambda>kv. Suc (need (snd kv))) kvs) \<le> n \<Longrightarrow>
         parse_members n (join_comma (map member_text kvs) @ CHR ''}'' # rest)
           = Inr (map (\<lambda>kv. (fst kv, canon (snd kv))) kvs, rest)"
  using IH
proof (induction kvs arbitrary: n)
  case Nil
  then show ?case by simp
next
  case (Cons kv kvs)
  from Cons.prems(3) obtain m where n: "n = Suc m" and mx: "need (snd kv) \<le> m"
    and ms: "sum_list (map (\<lambda>kv. Suc (need (snd kv))) kvs) \<le> m"
    by (cases n) auto
  from Cons.prems(1) have dx: "well_formed (snd kv)"
    and dxs: "list_all (\<lambda>kv. well_formed (snd kv)) kvs"
    by simp_all
  show ?case
  proof (cases kvs)
    case Nil
    have "parse_value m (ser (snd kv) @ CHR ''}'' # rest) = Inr (canon (snd kv), CHR ''}'' # rest)"
      by (rule Cons.prems(4)) (simp_all add: mx dx)
    then have "parse_members (Suc m) (quote (fst kv) @ CHR '':'' # ser (snd kv) @ CHR ''}'' # rest)
                 = Inr ([(fst kv, canon (snd kv))], rest)"
      by (rule pm_last)
    then show ?thesis
      by (simp add: n Nil member_text_def del: parse_members.simps parse_value.simps)
  next
    case (Cons y ys)
    let ?t = "join_comma (map member_text kvs) @ CHR ''}'' # rest"
    have "parse_value m (ser (snd kv) @ CHR '','' # ?t) = Inr (canon (snd kv), CHR '','' # ?t)"
      by (rule Cons.prems(4)) (simp_all add: mx dx)
    then have "parse_members (Suc m) (quote (fst kv) @ CHR '':'' # ser (snd kv) @ CHR '','' # ?t)
                 = cons_fst (fst kv, canon (snd kv)) (parse_members m ?t)"
      by (rule pm_more)
    moreover have "parse_members m ?t = Inr (map (\<lambda>kv. (fst kv, canon (snd kv))) kvs, rest)"
      by (rule Cons.IH[OF dxs _ ms]) (simp_all add: Cons Cons.prems(4))
    moreover have "join_comma (map member_text (kv # kvs)) @ CHR ''}'' # rest
                     = quote (fst kv) @ CHR '':'' # ser (snd kv) @ CHR '','' # ?t"
      by (simp add: Cons member_text_def)
    ultimately show ?thesis
      by (simp add: n cons_fst_def del: parse_members.simps parse_value.simps)
  qed
qed

lemma js_insert_last:
  "\<forall>p \<in> set kvs. \<not> comes_before k (fst p) \<Longrightarrow> js_insert k v kvs = kvs @ [(k, v)]"
  by (induction kvs) auto

lemma enum_sorted_append:
  "enum_sorted (xs @ ys) \<longleftrightarrow>
     enum_sorted xs \<and> enum_sorted ys \<and> (\<forall>x \<in> set xs. \<forall>y \<in> set ys. \<not> comes_before y x)"
  by (induction xs) auto

lemma enum_sorted_filter:
  "enum_sorted (map fst kvs) \<Longrightarrow> enum_sorted (map fst (filter P kvs))"
  by (induction kvs) auto

lemma foldl_js_define:
  "distinct (map fst (acc @ kvs)) \<Longrightarrow> enum_sorted (map fst (acc @ kvs)) \<Longrightarrow>
   foldl (\<lambda>acc kv. js_define (fst kv) (snd kv) acc) acc kvs = acc @ kvs"
proof (induction kvs arbitrary: acc)
  case Nil
  show ?case by simp
next
  case (Cons kv kvs)
  from Cons.prems(1) have fresh: "fst kv \<notin> set (map fst acc)" by auto
  from Cons.prems(2) have "\<forall>p \<in> set acc. \<not> comes_before (fst kv) (fst p)"
    by (auto simp: enum_sorted_append)
  then have ins: "js_define (fst kv) (snd kv) acc = acc @ [kv]"
    using fresh by (simp add: js_define_def js_insert_last)
  have "distinct (map fst ((acc @ [kv]) @ kvs))" "enum_sorted (map fst ((acc @ [kv]) @ kvs))"
    using Cons.prems by simp_all
  then have "foldl (\<lambda>acc kv. js_define (fst kv) (snd kv) acc) (acc @ [kv]) kvs = (acc @ [kv]) @ kvs"
    by (rule Cons.IH)
  then show ?case
    by (simp add: ins)
qed

lemma make_object_sorted:
  "distinct (map fst kvs) \<Longrightarrow> enum_sorted (map fst kvs) \<Longrightarrow> make_object kvs = Obj kvs"
  using foldl_js_define[of "[]" kvs] by (simp add: make_object_def)

lemma ser_Obj: "ser (Obj kvs) =
    CHR ''{'' # join_comma (map member_text (filter (\<lambda>kv. \<not> omitted (snd kv)) kvs)) @ ''}''"
proof -
  have "(\<lambda>kv. quote (fst kv) @ CHR '':'' # ser (snd kv)) = member_text"
    by (simp add: fun_eq_iff member_text_def)
  then show ?thesis by simp
qed

lemma member_text_first: "member_text kv = CHR ''\"'' # tl (member_text kv)"
  by (simp add: member_text_def quote_def)

lemma join_comma_first:
  "xs \<noteq> [] \<Longrightarrow> hd xs = c # cs \<Longrightarrow> \<exists>r. join_comma xs = c # r"
  by (cases xs rule: join_comma.cases) auto

lemma parse_value_ser:
  "need v \<le> n \<Longrightarrow> well_formed v \<Longrightarrow> no_digit_start rest \<Longrightarrow>
   parse_value n (ser v @ rest) = Inr (canon v, rest)"
proof (induction v arbitrary: n rest)
  case Undefined
  then obtain m where "n = Suc m" by (cases n) auto
  then show ?case using pv_null by simp
next
  case Null
  then obtain m where "n = Suc m" by (cases n) auto
  then show ?case using pv_null by simp
next
  case (Bool b)
  then obtain m where "n = Suc m" by (cases n) auto
  then show ?case using pv_true pv_false by (cases b) simp_all
next
  case (Num i)
  then obtain m where "n = Suc m" by (cases n) auto
  then show ?case using pv_num[OF Num.prems(3)] by simp
next
  case ObjectPrototype
  then obtain m where "n = Suc m" by (cases n) auto
  then show ?case using pv_obj_empty[of m rest] by simp
next
  case (Str s)
  then obtain m where "n = Suc m" by (cases n) auto
  then show ?case using pv_str by simp
next
  case (Arr xs)
  from Arr.prems(1) obtain m where n: "n = Suc m"
    and m: "sum_list (map (\<lambda>x. Suc (need x)) xs) \<le> m"
    by (cases n) auto
  show ?case
  proof (cases "xs = []")
    case True
    then show ?thesis using pv_arr_empty[of m rest] by (simp add: n)
  next
    case False
    obtain c cs where f: "ser (hd xs) = c # cs" "\<not> is_ws c" "c \<noteq> CHR '']''"
      by (rule ser_first[of "hd xs"])
    from False f(1) obtain r where j: "join_comma (map ser xs) = c # r"
      using join_comma_first[of "map ser xs" c cs] by (auto simp: hd_map)
    have e: "parse_elems m (join_comma (map ser xs) @ CHR '']'' # rest) = Inr (map canon xs, rest)"
      using Arr.prems(2) False m
      by (intro parse_elems_ser) (auto intro: Arr.IH)
    have "parse_value (Suc m) (CHR ''['' # (join_comma (map ser xs) @ CHR '']'' # rest))
            = (case parse_elems m (join_comma (map ser xs) @ CHR '']'' # rest) of
                 Inl e \<Rightarrow> Inl e | Inr p \<Rightarrow> Inr (Arr (fst p), snd p))"
      by (rule pv_arr[OF _ f(2,3)]) (simp add: j)
    then show ?thesis
      by (simp add: n e del: parse_value.simps)
  qed
next
  case (Obj kvs)
  let ?f = "filter (\<lambda>kv. \<not> omitted (snd kv)) kvs"
  from Obj.prems(1) obtain m where n: "n = Suc m"
    and m: "sum_list (map (\<lambda>kv. Suc (need (snd kv))) ?f) \<le> m"
    by (cases n) auto
  from Obj.prems(2) have dk: "distinct (map fst ?f)"
    and es: "enum_sorted (map fst ?f)"
    and dv: "list_all (\<lambda>kv. well_formed (snd kv)) ?f"
    by (auto simp: distinct_map_filter list_all_iff enum_sorted_filter)
  show ?case
  proof (cases "?f = []")
    case True
    then show ?thesis using pv_obj_empty[of m rest] by (simp add: n ser_Obj del: ser.simps)
  next
    case False
    let ?t = "join_comma (map member_text ?f) @ CHR ''}'' # rest"
    from False obtain r where j: "join_comma (map member_text ?f) = CHR ''\"'' # r"
      using join_comma_first[of "map member_text ?f" "CHR ''\"''" "tl (member_text (hd ?f))"]
        member_text_first[of "hd ?f"]
      by (auto simp: hd_map)
    have e: "parse_members m ?t = Inr (map (\<lambda>kv. (fst kv, canon (snd kv))) ?f, rest)"
      using dv False m
    proof (intro parse_members_ser)
      fix kv n rest
      assume "kv \<in> set ?f" "need (snd kv) \<le> n" "well_formed (snd kv)" "no_digit_start rest"
      then show "parse_value n (ser (snd kv) @ rest) = Inr (canon (snd kv), rest)"
        by (intro Obj.IH[of kv "snd kv"]) (auto simp: snds.simps)
    qed
    have k: "make_object (map (\<lambda>kv. (fst kv, canon (snd kv))) ?f)
               = Obj (map (\<lambda>kv. (fst kv, canon (snd kv))) ?f)"
      using dk es by (intro make_object_sorted) (simp_all add: comp_def)
    have "parse_value (Suc m) (CHR ''{'' # CHR ''\"'' # (r @ CHR ''}'' # rest))
            = (case parse_members m (CHR ''\"'' # (r @ CHR ''}'' # rest)) of
                 Inl e \<Rightarrow> Inl e
               | Inr p \<Rightarrow> Inr (make_object (fst p), snd p))"
      by (rule pv_obj)
    moreover have te: "?t = CHR ''\"'' # (r @ CHR ''}'' # rest)"
      by (simp add: j)
    moreover have "parse_members m (CHR ''\"'' # (r @ CHR ''}'' # rest))
                     = Inr (map (\<lambda>kv. (fst kv, canon (snd kv))) ?f, rest)"
      using e by (simp only: te)
    moreover have "ser (Obj kvs) @ rest = CHR ''{'' # CHR ''\"'' # (r @ CHR ''}'' # rest)"
      by (simp add: ser_Obj j del: ser.simps)
    ultimately show ?thesis
      by (simp add: n k del: parse_value.simps ser.simps)
  qed
qed

lemma length_join_comma:
  "ss \<noteq> [] \<Longrightarrow> Suc (length (join_comma ss)) = sum_list (map (\<lambda>s. Suc (length s)) ss)"
  by (induction ss rule: join_comma.induct) simp_all

lemma sum_list_mono_map:
  "(\<And>x. x \<in> set xs \<Longrightarrow> f x \<le> (g x :: nat)) \<Longrightarrow> sum_list (map f xs) \<le> sum_list (map g xs)"
  by (induction xs) (simp_all add: add_mono)

lemma need_le_length: "need v \<le> length (ser v)"
proof (induction v)
  case (Num i)
  obtain c cs where "int_digits (sint i) = c # cs"
    by (rule int_digits_first)
  then show ?case by simp
next
  case (Str s)
  show ?case by (simp add: quote_def)
next
  case (Arr xs)
  show ?case
  proof (cases "xs = []")
    case True
    then show ?thesis by simp
  next
    case False
    have "sum_list (map (\<lambda>x. Suc (need x)) xs) \<le> sum_list (map (\<lambda>x. Suc (length (ser x))) xs)"
      by (rule sum_list_mono_map) (simp add: Arr.IH)
    also have "\<dots> = sum_list (map (\<lambda>s. Suc (length s)) (map ser xs))"
      by (simp add: comp_def)
    also have "\<dots> = Suc (length (join_comma (map ser xs)))"
      using False by (simp add: length_join_comma)
    finally show ?thesis by simp
  qed
next
  case (Obj kvs)
  let ?f = "filter (\<lambda>kv. \<not> omitted (snd kv)) kvs"
  show ?case
  proof (cases "?f = []")
    case True
    then show ?thesis by (simp add: ser_Obj del: ser.simps)
  next
    case False
    have "sum_list (map (\<lambda>kv. Suc (need (snd kv))) ?f) \<le> sum_list (map (\<lambda>kv. Suc (length (member_text kv))) ?f)"
    proof (rule sum_list_mono_map)
      fix kv assume "kv \<in> set ?f"
      then have "need (snd kv) \<le> length (ser (snd kv))"
        by (intro Obj.IH[of kv "snd kv"]) (auto simp: snds.simps)
      then show "Suc (need (snd kv)) \<le> Suc (length (member_text kv))"
        by (simp add: member_text_def)
    qed
    also have "\<dots> = sum_list (map (\<lambda>s. Suc (length s)) (map member_text ?f))"
      by (simp add: comp_def)
    also have "\<dots> = Suc (length (join_comma (map member_text ?f)))"
      using False by (simp add: length_join_comma)
    finally show ?thesis by (simp add: ser_Obj del: ser.simps)
  qed
qed simp_all

lemma canon_not_omitted [simp]: "\<not> omitted (canon v)"
  by (cases v) simp_all

lemma ser_canon: "ser (canon v) = ser v"
proof (induction v)
  case (Arr xs)
  have "map (ser \<circ> canon) xs = map ser xs"
    by (rule map_cong[OF refl]) (simp add: Arr.IH)
  then show ?case by (simp del: map_eq_conv)
next
  case (Obj kvs)
  let ?f = "filter (\<lambda>kv. \<not> omitted (snd kv)) kvs"
  have "map (member_text \<circ> (\<lambda>kv. (fst kv, canon (snd kv)))) ?f = map member_text ?f"
  proof (rule map_cong[OF refl])
    fix kv assume "kv \<in> set ?f"
    then have "ser (canon (snd kv)) = ser (snd kv)"
      by (intro Obj.IH[of kv "snd kv"]) (auto simp: snds.simps)
    then show "(member_text \<circ> (\<lambda>kv. (fst kv, canon (snd kv)))) kv = member_text kv"
      by (simp add: member_text_def)
  qed
  moreover have "filter (\<lambda>kv. \<not> omitted (snd kv)) (map (\<lambda>kv. (fst kv, canon (snd kv))) ?f)
                   = map (\<lambda>kv. (fst kv, canon (snd kv))) ?f"
    by (simp add: filter_map comp_def)
  ultimately show ?case
    by (simp add: ser_Obj del: ser.simps map_eq_conv)
qed simp_all

lemma JSON_parse_ser:
  assumes "well_formed v"
  shows "JSON_parse (ser v) = Inr (canon v)"
proof -
  have "parse_value (Suc (length (ser v))) (ser v @ []) = Inr (canon v, [])"
    using need_le_length[of v] by (intro parse_value_ser assms) simp_all
  then show ?thesis
    by (simp add: JSON_parse_def skip_ws_def)
qed

lemma JSON_roundtrip:
  assumes "well_formed v" and "\<not> omitted v"
  shows "\<exists>x. JSON_parse (the (JSON_stringify v)) = Inr x \<and> JSON_stringify x = JSON_stringify v"
  using assms by (simp add: JSON_stringify_def JSON_parse_ser ser_canon)

lemma deserialize_serialize:
  assumes "well_formed v" and "\<not> omitted v"
  shows "serialize v = Some (ser v)" and "deserialize (ser v) = Inr (canon v)"
    and "JSON_stringify (canon v) = JSON_stringify v"
  using assms by (simp_all add: serialize_def deserialize_def JSON_stringify_def JSON_parse_ser ser_canon)

section \<open>Storing and reading back\<close>




section \<open>Initialising the delegate\<close>

lemma js_replace_keys: "map fst (js_replace k v kvs) = map fst kvs"
  by (induction kvs) auto

lemma js_insert_keys: "fst ` set (js_insert k v kvs) = insert k (fst ` set kvs)"
  by (induction kvs) auto

lemma js_insert_distinct:
  "k \<notin> fst ` set kvs \<Longrightarrow> distinct (map fst kvs) \<Longrightarrow> distinct (map fst (js_insert k v kvs))"
proof (induction kvs)
  case Nil
  show ?case by simp
next
  case (Cons p ps)
  then show ?case
    using js_insert_keys[of k v ps] by (auto simp: image_iff)
qed

lemma js_insert_set: "set (js_insert k v kvs) = insert (k, v) (set kvs)"
  by (induction kvs) auto

lemma js_replace_set:
  "distinct (map fst kvs) \<Longrightarrow> k \<in> fst ` set kvs \<Longrightarrow>
   set (js_replace k v kvs) = insert (k, v) {p \<in> set kvs. fst p \<noteq> k}"
proof (induction kvs)
  case Nil
  then show ?case by simp
next
  case (Cons p ps)
  show ?case
  proof (cases "fst p = k")
    case True
    with Cons.prems(1) have "{q \<in> set ps. fst q \<noteq> k} = set ps"
      by (auto simp: image_iff)
    with True show ?thesis by auto
  next
    case False
    with Cons.prems have "set (js_replace k v ps) = insert (k, v) {p \<in> set ps. fst p \<noteq> k}"
      by (intro Cons.IH) auto
    with False show ?thesis by auto
  qed
qed

lemma js_define_keys: "fst ` set (js_define k v kvs) = insert k (fst ` set kvs)"
proof (cases "k \<in> set (map fst kvs)")
  case True
  have "fst ` set (js_replace k v kvs) = set (map fst (js_replace k v kvs))" by simp
  also have "\<dots> = fst ` set kvs" by (simp only: js_replace_keys) simp
  finally show ?thesis using True by (auto simp: js_define_def)
next
  case False
  then show ?thesis by (simp add: js_define_def js_insert_keys)
qed

lemma js_define_distinct: "distinct (map fst kvs) \<Longrightarrow> distinct (map fst (js_define k v kvs))"
  by (simp add: js_define_def js_replace_keys js_insert_distinct)

lemma js_define_set:
  "distinct (map fst kvs) \<Longrightarrow> set (js_define k v kvs) = insert (k, v) {p \<in> set kvs. fst p \<noteq> k}"
  by (auto simp: js_define_def js_replace_set js_insert_set image_iff)

lemma js_assign_Str:
  "js_assign k (Str s) kvs =
     Inr (if k = ''__proto__'' \<and> k \<notin> fst ` set kvs then kvs else js_define k (Str s) kvs)"
  by (auto simp: js_assign_def js_define_def is_object_def)

lemma deserialize_quote: "deserialize (quote s) = Inr (Str s)"
  using deserialize_serialize(2)[of "Str s"] by simp

lemma fst_getItem_web:
  "is_web st r \<Longrightarrow>
   fst (getItem st k w) =
     (case store_of r w (getPrefixedName st k) of None \<Rightarrow> Inr Null | Some s \<Rightarrow> deserialize s)"
  by (simp add: getItem_web split: option.splits sum.splits)

lemma write_property_Str:
  "proto obj = ObjectProto \<Longrightarrow>
   write_property obj k (Str s) =
     Inr (if k = ''__proto__'' \<and> own obj k = None then obj else obj\<lparr>own := (own obj)(k \<mapsto> Str s)\<rparr>)"
  by (simp add: write_property_def is_object_def split: option.splits)

lemma setItem_attached:
  assumes "attached st w"
  shows "\<exists>w'. setItem st k (Str s) w = (Inr (), w') \<and> attached st w'
           \<and> ((cls st = WebWindowStore \<longrightarrow> k \<noteq> ''__proto__'') \<longrightarrow> fst (getItem st k w') = Inr (Str s))
           \<and> (\<forall>k'. k' \<noteq> k \<longrightarrow> fst (getItem st k' w') = fst (getItem st k' w))"
  using assms
proof (cases rule: attached_cases)
  case (web r)
  then have r: "r = LocalRef \<or> r = SessionRef" by (simp add: is_web_def)
  let ?w' = "upd_store r (\<lambda>m. m(getPrefixedName st k \<mapsto> quote s)) w"
  have "attached st ?w'"
    using web by (auto simp: attached_def is_web_def)
  moreover have "setItem st k (Str s) w = (Inr (), ?w')"
    by (simp add: setItem_web[OF web] serialize_Str)
  moreover have "fst (getItem st k ?w') = Inr (Str s)"
    using r by (simp add: fst_getItem_web[OF web] deserialize_quote)
  moreover have "\<forall>k'. k' \<noteq> k \<longrightarrow> fst (getItem st k' ?w') = fst (getItem st k' w)"
    using r by (simp add: fst_getItem_web[OF web])
  ultimately show ?thesis by blast
next
  case (window a obj)
  define obj' where "obj' = (if k = ''__proto__'' \<and> own obj k = None then obj
                             else obj\<lparr>own := (own obj)(k \<mapsto> Str s)\<rparr>)"
  define w' where "w' = w\<lparr>heap := (heap w)(a \<mapsto> obj')\<rparr>"
  have h: "heap w' a = Some obj'" by (simp add: w'_def)
  have p: "proto obj' = ObjectProto" by (simp add: obj'_def window(4))
  have "attached st w'"
    using window by (simp add: attached_def w'_def p)
  moreover have "setItem st k (Str s) w = (Inr (), w')"
    by (simp add: setItem_window_gen[OF window(1,2,3)] write_property_Str[OF window(4)] w'_def obj'_def)
  moreover have "(cls st = WebWindowStore \<longrightarrow> k \<noteq> ''__proto__'') \<longrightarrow> fst (getItem st k w') = Inr (Str s)"
    using window(1) by (simp add: getItem_window[OF window(1,2) h] obj'_def read_property_def)
  moreover have "\<forall>k'. k' \<noteq> k \<longrightarrow> fst (getItem st k' w') = fst (getItem st k' w)"
    by (simp add: getItem_window[OF window(1,2) h] getItem_window[OF window(1,2,3)] obj'_def
        read_property_def window(4) split: option.splits)
  ultimately show ?thesis by blast
qed

lemma isConnected_attached:
  assumes "attached st w"
  shows "\<exists>w'. isConnected st w = (Inr True, w') \<and> attached st w'"
  using assms
proof (cases rule: attached_cases)
  case (web r)
  then have "attached st (upd_store r (\<lambda>m. m(getPrefixedName st pingKey := None)) w)"
    by (auto simp: attached_def is_web_def)
  then show ?thesis
    by (auto simp: isConnected_web[OF web])
next
  case (window a obj)
  then show ?thesis
    using assms by (simp add: isConnected_window)
qed

text \<open>
  The part of \<open>setStates\<close> that runs at an un-awaited call on a delegate over a connected
  store: a \<open>Storage\<close>-backed class has written the ping key, \<open>WebWindowStore\<close> has done
  nothing, and the call is suspended before it has read any property of its argument.
\<close>

lemma setStates_start_attached:
  assumes "dstorage d = Some st" and "attached st w"
  shows "\<exists>w'. snd (setStates_start d w) = w' \<and> attached st w'
           \<and> fst (setStates_start d w) = (if cls st = WebWindowStore then Settled (Inr True) else AfterPing)
           \<and> (\<forall>k. cls st \<noteq> WebWindowStore \<longrightarrow> k \<noteq> pingKey \<longrightarrow>
                  fst (getItem st k w') = fst (getItem st k w))
           \<and> (cls st = WebWindowStore \<longrightarrow> w' = w)
           \<and> (cls st \<noteq> WebWindowStore \<longrightarrow> fst (getItem st pingKey w') = Inr (Str pingValue))"
  using assms(2)
proof (cases rule: attached_cases)
  case (web r)
  then have nw: "cls st \<noteq> WebWindowStore" and df: "isStorageDefined st"
    by (simp_all add: is_web_def isStorageDefined_def)
  from setItem_attached[OF assms(2), of pingKey pingValue]
  obtain w' where w': "setItem st pingKey (Str pingValue) w = (Inr (), w')" "attached st w'"
    "\<forall>k'. k' \<noteq> pingKey \<longrightarrow> fst (getItem st k' w') = fst (getItem st k' w)"
    "(cls st = WebWindowStore \<longrightarrow> pingKey \<noteq> ''__proto__'') \<longrightarrow>
       fst (getItem st pingKey w') = Inr (Str pingValue)"
    by (elim exE conjE) (rule that)
  have "setStates_start d w = (AfterPing, w')"
    using nw df by (simp add: setStates_start_def assms(1) isConnected_start_def w'(1))
  then show ?thesis
    using w'(2,3,4) nw by simp
next
  case (window a obj)
  then have "setStates_start d w = (Settled (Inr True), w)"
    by (simp add: setStates_start_def assms(1) isConnected_start_def)
  then show ?thesis
    using assms(2) window(1) by simp
qed

text \<open>
  \<open>setStates\<close> awaited is the part that runs at the call followed by the rest.
\<close>

lemma isConnected_split:
  "isConnected st w = (case isConnected_start st w of (s, w') \<Rightarrow> isConnected_resume st s w')"
  by (cases "setItem st pingKey (Str pingValue) w"; cases "fst (setItem st pingKey (Str pingValue) w)")
     (auto simp: isConnected_def isConnected_start_def isConnected_resume_def bind_def return_def)

lemma setStates_split:
  "setStates d data w = (case setStates_start d w of (s, w') \<Rightarrow> setStates_resume d data s w')"
proof (cases "dstorage d")
  case None
  then show ?thesis
    by (simp add: setStates_def setStates_start_def setStates_resume_def on_storage_def bind_def
        throw_def)
next
  case (Some st)
  obtain s w' where s: "isConnected_start st w = (s, w')"
    by (cases "isConnected_start st w")
  show ?thesis
    by (simp add: setStates_def setStates_start_def setStates_resume_def on_storage_def Some
        bind_def isConnected_split[of st w] s)
qed

lemma init_entry_provider:
  "init_entry reg d (''provider'', v) w =
     (let d1 = d\<lparr>identityResolver :=
                   (if identityResolver d = None then identityResolverMap reg v
                    else identityResolver d)\<rparr>
      in case js_assign ''provider'' v (state d) of
           Inl e \<Rightarrow> (Inl e, d1, w)
         | Inr kvs \<Rightarrow> (Inr (), d1\<lparr>state := kvs\<rparr>, snd (setStates_start (d1\<lparr>state := kvs\<rparr>) w)))"
  by (simp add: init_entry_def Let_def split: sum.splits)

lemma init_entry_respond_strategy:
  "init_entry reg d (''respond_strategy'', v) w =
     (let d1 = d\<lparr>respondStrategy := (if respondStrategy d = Undefined then v else respondStrategy d),
                 respondFrame :=
                   (if respondFrame d = None
                    then respondStrategyMap reg (if respondStrategy d = Undefined then v else respondStrategy d)
                    else respondFrame d)\<rparr>
      in case js_assign ''respond_strategy'' v (state d) of
           Inl e \<Rightarrow> (Inl e, d1, w)
         | Inr kvs \<Rightarrow> (Inr (), d1\<lparr>state := kvs\<rparr>, snd (setStates_start (d1\<lparr>state := kvs\<rparr>) w)))"
  by (cases "respondFrame d"; cases "js_assign ''respond_strategy'' v (state d)")
     (simp_all add: init_entry_def Let_def)

lemma init_entry_default:
  assumes "k \<noteq> ''provider''" and "k \<noteq> ''respond_strategy''" and "dstorage d = Some st"
    and "setItem st k v w = (Inr (), wx)"
  shows "init_entry reg d (k, v) w =
     (case js_assign k v (state d) of
        Inl e \<Rightarrow> (Inl e, d, wx)
      | Inr kvs \<Rightarrow> (Inr (), d\<lparr>state := kvs\<rparr>, snd (setStates_start (d\<lparr>state := kvs\<rparr>) wx)))"
  using assms by (simp add: init_entry_def Let_def not_awaited_def split: sum.splits)

lemma init_entry_step:
  assumes inv: "init_inv st d w" and str: "is_Str (snd kv)"
  shows "\<exists>d' w'. init_entry reg d kv w = (Inr (), d', w') \<and> init_inv st d' w'
           \<and> fst ` set (state d') = fst ` set (state d) \<union> ({fst kv} - {''__proto__''})
           \<and> set (state d') =
               (if fst kv = ''__proto__'' then set (state d)
                else insert kv {p \<in> set (state d). fst p \<noteq> fst kv})
           \<and> (\<forall>k. k = ''provider'' \<or> k = ''respond_strategy'' \<longrightarrow>
                  fst (getItem st k w') = fst (getItem st k w))"
proof -
  from inv have ds: "dstorage d = Some st" and at: "attached st w"
    and sv: "string_valued (state d)" and dk: "distinct (map fst (state d))"
    and np: "''__proto__'' \<notin> fst ` set (state d)"
    and got: "\<forall>p \<in> set (state d). written_by_init st (fst p) \<longrightarrow> fst (getItem st (fst p) w) = Inr (snd p)"
    by (simp_all add: init_inv_def list_all_iff)
  from str obtain s where s: "snd kv = Str s"
    by (cases "snd kv") (simp_all add: is_Str_def)
  define key where "key = fst kv"
  define routed where "routed \<longleftrightarrow> key = ''provider'' \<or> key = ''respond_strategy''"
  define d1 where "d1 =
    (if key = ''provider'' then
       d\<lparr>identityResolver :=
            (if identityResolver d = None then identityResolverMap reg (Str s) else identityResolver d)\<rparr>
     else if key = ''respond_strategy'' then
       d\<lparr>respondStrategy := (if respondStrategy d = Undefined then Str s else respondStrategy d),
         respondFrame :=
           (if respondFrame d = None
            then respondStrategyMap reg (if respondStrategy d = Undefined then Str s else respondStrategy d)
            else respondFrame d)\<rparr>
     else d)"
  define w1 where "w1 = (if routed then w else snd (setItem st key (Str s) w))"
  define kvs where "kvs = (if key = ''__proto__'' then state d else js_define key (Str s) (state d))"
  define d2 where "d2 = d1\<lparr>state := kvs\<rparr>"
  define w2 where "w2 = snd (setStates_start d2 w1)"
  have d1s: "dstorage d1 = Some st" "state d1 = state d"
    by (simp_all add: d1_def ds)
  from setItem_attached[OF at, of key s]
  obtain wx where wx: "setItem st key (Str s) w = (Inr (), wx)" "attached st wx"
    "(cls st = WebWindowStore \<longrightarrow> key \<noteq> ''__proto__'') \<longrightarrow> fst (getItem st key wx) = Inr (Str s)"
    "\<forall>k'. k' \<noteq> key \<longrightarrow> fst (getItem st k' wx) = fst (getItem st k' w)"
    by blast
  have at1: "attached st w1"
    using at wx by (simp add: w1_def)
  have fr1: "\<forall>k'. k' \<noteq> key \<or> routed \<longrightarrow> fst (getItem st k' w1) = fst (getItem st k' w)"
    using wx by (simp add: w1_def)
  have new1: "\<not> routed \<Longrightarrow> key \<noteq> ''__proto__'' \<Longrightarrow> fst (getItem st key w1) = Inr (Str s)"
    using wx by (simp add: w1_def)
  have as: "js_assign key (Str s) (state d1) = Inr kvs"
    using np by (auto simp: js_assign_Str d1s kvs_def)
  have d2s: "dstorage d2 = Some st" "state d2 = kvs"
    by (simp_all add: d2_def d1s)
  from setStates_start_attached[OF d2s(1) at1]
  have at2: "attached st w2"
    and fr2: "\<forall>k. cls st \<noteq> WebWindowStore \<longrightarrow> k \<noteq> pingKey \<longrightarrow> fst (getItem st k w2) = fst (getItem st k w1)"
    and same2: "cls st = WebWindowStore \<longrightarrow> w2 = w1"
    and ping2: "cls st \<noteq> WebWindowStore \<longrightarrow> fst (getItem st pingKey w2) = Inr (Str pingValue)"
    by (simp_all add: w2_def)
  have get2: "fst (getItem st k w2) = fst (getItem st k w1)" if "cls st \<noteq> WebWindowStore \<longrightarrow> k \<noteq> pingKey" for k
    using that fr2 same2 by (cases "cls st = WebWindowStore") auto
  have "\<forall>p \<in> set (js_define key (Str s) (state d)). is_Str (snd p)"
  proof
    fix p assume "p \<in> set (js_define key (Str s) (state d))"
    then have "p \<in> insert (key, Str s) {q \<in> set (state d). fst q \<noteq> key}"
      by (simp only: js_define_set[OF dk])
    then show "is_Str (snd p)"
      using sv by (auto simp: string_valued_def list_all_iff is_Str_def)
  qed
  then have sv2: "string_valued kvs"
    using sv by (simp add: kvs_def string_valued_def list_all_iff)
  have dk2: "distinct (map fst kvs)"
    by (simp add: kvs_def js_define_distinct dk)
  have np2: "''__proto__'' \<notin> fst ` set kvs"
    using np by (simp add: kvs_def js_define_keys)
  have keys2: "fst ` set kvs = fst ` set (state d) \<union> ({key} - {''__proto__''})"
    by (auto simp: kvs_def js_define_keys)
  have got2: "\<forall>p \<in> set kvs. written_by_init st (fst p) \<longrightarrow> fst (getItem st (fst p) w2) = Inr (snd p)"
  proof (intro ballI impI)
    fix p assume p: "p \<in> set kvs" and wr: "written_by_init st (fst p)"
    from wr have g: "fst (getItem st (fst p) w2) = fst (getItem st (fst p) w1)"
      by (intro get2) (simp add: written_by_init_def)
    show "fst (getItem st (fst p) w2) = Inr (snd p)"
    proof (cases "fst p = key")
      case True
      from p np2 True have nk: "key \<noteq> ''__proto__''" by (auto simp: image_iff)
      from wr True have nr: "\<not> routed" by (simp add: written_by_init_def routed_def)
      from p nk have "p \<in> set (js_define key (Str s) (state d))"
        by (simp add: kvs_def)
      then have "p \<in> insert (key, Str s) {q \<in> set (state d). fst q \<noteq> key}"
        by (simp only: js_define_set[OF dk])
      with True have "snd p = Str s"
        by auto
      then show ?thesis
        using new1[OF nr nk] g True by simp
    next
      case False
      have "p \<in> set (state d)"
      proof (cases "key = ''__proto__''")
        case True
        with p show ?thesis by (simp add: kvs_def)
      next
        case nk: False
        with p have "p \<in> set (js_define key (Str s) (state d))"
          by (simp add: kvs_def)
        then have "p \<in> insert (key, Str s) {q \<in> set (state d). fst q \<noteq> key}"
          by (simp only: js_define_set[OF dk])
        with False show ?thesis by auto
      qed
      with got wr have "fst (getItem st (fst p) w) = Inr (snd p)" by blast
      then show ?thesis
        using g fr1 False by simp
    qed
  qed
  have routed_frame: "\<forall>k. k = ''provider'' \<or> k = ''respond_strategy'' \<longrightarrow>
      fst (getItem st k w2) = fst (getItem st k w)"
  proof (intro allI impI)
    fix k assume k: "k = ''provider'' \<or> k = ''respond_strategy''"
    then have "k \<noteq> pingKey" by (auto simp: pingKey_def)
    then have "fst (getItem st k w2) = fst (getItem st k w1)" by (intro get2) simp
    moreover have "fst (getItem st k w1) = fst (getItem st k w)"
      using fr1 k by (auto simp: routed_def)
    ultimately show "fst (getItem st k w2) = fst (getItem st k w)" by simp
  qed
  have kv: "kv = (key, Str s)"
    by (simp add: key_def s[symmetric])
  have "init_entry reg d kv w = (Inr (), d2, w2)"
  proof (cases "key = ''provider''")
    case True
    have "js_assign ''provider'' (Str s) (state d) = Inr kvs"
      using as True by (simp add: d1s)
    moreover have "d1 = d\<lparr>identityResolver :=
            (if identityResolver d = None then identityResolverMap reg (Str s) else identityResolver d)\<rparr>"
      using True by (simp add: d1_def)
    moreover have "w1 = w"
      using True by (simp add: w1_def routed_def)
    ultimately show ?thesis
      unfolding kv True init_entry_provider d2_def w2_def by (simp add: Let_def)
  next
    case False
    note np = this
    show ?thesis
    proof (cases "key = ''respond_strategy''")
      case True
      have "js_assign ''respond_strategy'' (Str s) (state d) = Inr kvs"
        using as True by (simp add: d1s)
      moreover have "d1 = d\<lparr>respondStrategy := (if respondStrategy d = Undefined then Str s else respondStrategy d),
         respondFrame :=
           (if respondFrame d = None
            then respondStrategyMap reg (if respondStrategy d = Undefined then Str s else respondStrategy d)
            else respondFrame d)\<rparr>"
        using True by (simp add: d1_def)
      moreover have "w1 = w"
        using True by (simp add: w1_def routed_def)
      ultimately show ?thesis
        unfolding kv True init_entry_respond_strategy d2_def w2_def by (simp add: Let_def)
    next
      case False
      with np have d1d: "d1 = d" and w1x: "w1 = wx"
        by (simp_all add: d1_def w1_def routed_def wx(1))
      from as have as': "js_assign key (Str s) (state d) = Inr kvs"
        by (simp add: d1d)
      show ?thesis
        unfolding kv init_entry_default[OF np False ds wx(1)] d2_def w2_def
        by (simp add: as' d1d w1x)
    qed
  qed
  then have c1: "init_entry reg d kv w = (Inr (), d2, w2)" .
  have c2: "init_inv st d2 w2"
    using at2 got2 ping2 by (simp add: init_inv_def d2s sv2 dk2 np2 list_all_iff)
  have fk: "fst kv = key" by (simp add: key_def)
  have c4: "set (state d2) =
      (if fst kv = ''__proto__'' then set (state d) else insert kv {p \<in> set (state d). fst p \<noteq> fst kv})"
  proof (cases "key = ''__proto__''")
    case True
    then show ?thesis by (simp add: d2s kvs_def fk)
  next
    case False
    have "set (js_define key (Str s) (state d)) = insert (key, Str s) {p \<in> set (state d). fst p \<noteq> key}"
      by (rule js_define_set[OF dk])
    with False show ?thesis by (simp add: d2s kvs_def fk kv[symmetric])
  qed
  have c3: "fst ` set (state d2) = fst ` set (state d) \<union> ({fst kv} - {''__proto__''})"
    using keys2 by (simp add: d2s key_def)
  show ?thesis
    by (intro exI[of _ d2] exI[of _ w2] conjI) (fact c1 c2 c3 c4 routed_frame)+
qed

lemma init_loop_inv:
  "string_valued kvs \<Longrightarrow> init_inv st d w \<Longrightarrow>
   \<exists>d' w'. init_loop reg d kvs w = (Inr (), d', w') \<and> init_inv st d' w'
          \<and> fst ` set (state d') = fst ` set (state d) \<union> (fst ` set kvs - {''__proto__''})
          \<and> (\<forall>p \<in> set (state d). fst p \<notin> fst ` set kvs \<longrightarrow> p \<in> set (state d'))
          \<and> (distinct (map fst kvs) \<longrightarrow>
                (\<forall>kv \<in> set kvs. fst kv \<noteq> ''__proto__'' \<longrightarrow> kv \<in> set (state d')))
          \<and> (\<forall>k. k = ''provider'' \<or> k = ''respond_strategy'' \<longrightarrow>
                 fst (getItem st k w') = fst (getItem st k w))"
proof (induction kvs arbitrary: d w)
  case Nil
  then show ?case by simp
next
  case (Cons kv kvs)
  from Cons.prems(1) have str: "is_Str (snd kv)" and sv: "string_valued kvs"
    by (simp_all add: string_valued_def)
  from init_entry_step[OF Cons.prems(2) str, of reg]
  obtain d1 w1 where s1: "init_entry reg d kv w = (Inr (), d1, w1)" "init_inv st d1 w1"
    "fst ` set (state d1) = fst ` set (state d) \<union> ({fst kv} - {''__proto__''})"
    "set (state d1) =
       (if fst kv = ''__proto__'' then set (state d) else insert kv {p \<in> set (state d). fst p \<noteq> fst kv})"
    "\<forall>k. k = ''provider'' \<or> k = ''respond_strategy'' \<longrightarrow> fst (getItem st k w1) = fst (getItem st k w)"
    by (elim exE conjE) (rule that)
  from Cons.IH[OF sv s1(2)]
  obtain d' w' where s2: "init_loop reg d1 kvs w1 = (Inr (), d', w')" "init_inv st d' w'"
    "fst ` set (state d') = fst ` set (state d1) \<union> (fst ` set kvs - {''__proto__''})"
    "\<forall>p \<in> set (state d1). fst p \<notin> fst ` set kvs \<longrightarrow> p \<in> set (state d')"
    "distinct (map fst kvs) \<longrightarrow> (\<forall>kv \<in> set kvs. fst kv \<noteq> ''__proto__'' \<longrightarrow> kv \<in> set (state d'))"
    "\<forall>k. k = ''provider'' \<or> k = ''respond_strategy'' \<longrightarrow> fst (getItem st k w') = fst (getItem st k w1)"
    by (elim exE conjE) (rule that)
  have c1: "init_loop reg d (kv # kvs) w = (Inr (), d', w')"
    by (simp add: s1(1) s2(1))
  have c3: "fst ` set (state d') = fst ` set (state d) \<union> (fst ` set (kv # kvs) - {''__proto__''})"
    by (auto simp: s2(3) s1(3))
  have c4: "\<forall>p \<in> set (state d). fst p \<notin> fst ` set (kv # kvs) \<longrightarrow> p \<in> set (state d')"
  proof (intro ballI impI)
    fix p assume p: "p \<in> set (state d)" and n: "fst p \<notin> fst ` set (kv # kvs)"
    from n have "fst p \<noteq> fst kv" "fst p \<notin> fst ` set kvs" by auto
    with p have "p \<in> set (state d1)" by (simp add: s1(4))
    with s2(4) \<open>fst p \<notin> fst ` set kvs\<close> show "p \<in> set (state d')" by blast
  qed
  have c5: "distinct (map fst (kv # kvs)) \<longrightarrow>
      (\<forall>x \<in> set (kv # kvs). fst x \<noteq> ''__proto__'' \<longrightarrow> x \<in> set (state d'))"
  proof (intro impI ballI)
    fix x assume dk: "distinct (map fst (kv # kvs))" and x: "x \<in> set (kv # kvs)"
      and np: "fst x \<noteq> ''__proto__''"
    from dk have fresh: "fst kv \<notin> fst ` set kvs" and dk': "distinct (map fst kvs)" by auto
    show "x \<in> set (state d')"
    proof (cases "x = kv")
      case True
      with np have "kv \<in> set (state d1)" by (simp add: s1(4))
      with s2(4) fresh True show ?thesis by blast
    next
      case False
      with x have "x \<in> set kvs" by simp
      with s2(5) dk' np show ?thesis by blast
    qed
  qed
  have c6: "\<forall>k. k = ''provider'' \<or> k = ''respond_strategy'' \<longrightarrow>
      fst (getItem st k w') = fst (getItem st k w)"
    using s1(5) s2(6) by simp
  show ?case
    by (intro exI[of _ d'] exI[of _ w'] conjI) (fact c1 s2(2) c3 c4 c5 c6)+
qed

lemma init_calls_inv:
  "list_all string_record calls \<Longrightarrow> init_inv st d w \<Longrightarrow>
   \<exists>d' w'. init_calls reg d calls w = (Inr (), d', w') \<and> init_inv st d' w'
          \<and> fst ` set (state d') =
              fst ` set (state d) \<union> ((\<Union>args \<in> set calls. keys_of args) - {''__proto__''})
          \<and> (\<forall>k. k = ''provider'' \<or> k = ''respond_strategy'' \<longrightarrow>
                 fst (getItem st k w') = fst (getItem st k w))"
proof (induction calls arbitrary: d w)
  case Nil
  then show ?case by simp
next
  case (Cons args calls)
  from Cons.prems(1) have sr: "string_record args" and rest: "list_all string_record calls"
    by simp_all
  from sr obtain kvs where a: "args = Obj kvs" and sv: "string_valued kvs"
    by (cases args) (simp_all add: string_record_def)
  from init_loop_inv[OF sv Cons.prems(2), of reg]
  obtain d1 w1 where s1: "init_loop reg d kvs w = (Inr (), d1, w1)" "init_inv st d1 w1"
    "fst ` set (state d1) = fst ` set (state d) \<union> (fst ` set kvs - {''__proto__''})"
    "\<forall>k. k = ''provider'' \<or> k = ''respond_strategy'' \<longrightarrow> fst (getItem st k w1) = fst (getItem st k w)"
    by (elim exE conjE) (rule that)
  from Cons.IH[OF rest s1(2)]
  obtain d' w' where s2: "init_calls reg d1 calls w1 = (Inr (), d', w')" "init_inv st d' w'"
    "fst ` set (state d') =
       fst ` set (state d1) \<union> ((\<Union>args \<in> set calls. keys_of args) - {''__proto__''})"
    "\<forall>k. k = ''provider'' \<or> k = ''respond_strategy'' \<longrightarrow> fst (getItem st k w') = fst (getItem st k w1)"
    by (elim exE conjE) (rule that)
  have c1: "init_calls reg d (args # calls) w = (Inr (), d', w')"
    by (simp add: a init_def Object_entries_def s1(1) s2(1))
  have c3: "fst ` set (state d') =
      fst ` set (state d) \<union> ((\<Union>args \<in> set (args # calls). keys_of args) - {''__proto__''})"
    by (auto simp: s2(3) s1(3) a keys_of_def)
  have c4: "\<forall>k. k = ''provider'' \<or> k = ''respond_strategy'' \<longrightarrow>
      fst (getItem st k w') = fst (getItem st k w)"
    using s1(4) s2(4) by simp
  show ?case
    by (intro exI[of _ d'] exI[of _ w'] conjI) (fact c1 s2(2) c3 c4)+
qed

lemma fresh_init_inv:
  "dstorage d = Some st \<Longrightarrow> attached st w \<Longrightarrow> state d = [] \<Longrightarrow> init_inv st d w"
  by (simp add: init_inv_def string_valued_def)

text \<open>
  The rest of a \<open>setStates\<close> call that \<open>init\<close> has started, run to its end from the
  globals \<open>init\<close> has left: it finds the ping key, answers that the store is connected
  and writes every entry of \<open>_state\<close>, the keys \<open>provider\<close> and \<open>respond_strategy\<close>
  included.
\<close>

lemma set_all_frame:
  "attached st w \<Longrightarrow> string_valued kvs \<Longrightarrow>
   \<exists>w'. for_each (\<lambda>kv. setItem st (fst kv) (snd kv)) kvs w = (Inr (), w') \<and> attached st w'
        \<and> (\<forall>k. k \<notin> fst ` set kvs \<longrightarrow> fst (getItem st k w') = fst (getItem st k w))"
proof (induction kvs arbitrary: w)
  case Nil
  then show ?case by (simp add: return_def)
next
  case (Cons kv kvs)
  from Cons.prems(2) obtain s where s: "snd kv = Str s" and sv: "string_valued kvs"
    by (cases "snd kv") (auto simp: string_valued_def is_Str_def)
  from setItem_attached[OF Cons.prems(1), of "fst kv" s]
  obtain w1 where w1: "setItem st (fst kv) (Str s) w = (Inr (), w1)" "attached st w1"
    "\<forall>k'. k' \<noteq> fst kv \<longrightarrow> fst (getItem st k' w1) = fst (getItem st k' w)"
    by (elim exE conjE) (rule that)
  from Cons.IH[OF w1(2) sv]
  obtain w' where w': "for_each (\<lambda>kv. setItem st (fst kv) (snd kv)) kvs w1 = (Inr (), w')"
    "attached st w'" "\<forall>k. k \<notin> fst ` set kvs \<longrightarrow> fst (getItem st k w') = fst (getItem st k w1)"
    by (elim exE conjE) (rule that)
  have c1: "for_each (\<lambda>kv. setItem st (fst kv) (snd kv)) (kv # kvs) w = (Inr (), w')"
    by (simp add: bind_def s w1(1) w'(1))
  have c3: "\<forall>k. k \<notin> fst ` set (kv # kvs) \<longrightarrow> fst (getItem st k w') = fst (getItem st k w)"
    using w1(3) w'(3) by simp
  show ?case
    by (intro exI[of _ w'] conjI) (fact c1 w'(2) c3)+
qed

lemma set_all_post:
  "attached st w \<Longrightarrow> string_valued kvs \<Longrightarrow> distinct (map fst kvs) \<Longrightarrow>
   ''__proto__'' \<notin> fst ` set kvs \<Longrightarrow>
   \<exists>w'. for_each (\<lambda>kv. setItem st (fst kv) (snd kv)) kvs w = (Inr (), w') \<and> attached st w'
        \<and> (\<forall>kv \<in> set kvs. fst (getItem st (fst kv) w') = Inr (snd kv))"
proof (induction kvs arbitrary: w)
  case Nil
  then show ?case by (simp add: return_def)
next
  case (Cons kv kvs)
  from Cons.prems(2) obtain s where s: "snd kv = Str s" and sv: "string_valued kvs"
    by (cases "snd kv") (auto simp: string_valued_def is_Str_def)
  from Cons.prems(3) have fresh: "fst kv \<notin> fst ` set kvs" and dk: "distinct (map fst kvs)"
    by auto
  from Cons.prems(4) have np: "fst kv \<noteq> ''__proto__''" and np': "''__proto__'' \<notin> fst ` set kvs"
    by auto
  from setItem_attached[OF Cons.prems(1), of "fst kv" s]
  obtain w1 where w1: "setItem st (fst kv) (Str s) w = (Inr (), w1)" "attached st w1"
    "(cls st = WebWindowStore \<longrightarrow> fst kv \<noteq> ''__proto__'') \<longrightarrow> fst (getItem st (fst kv) w1) = Inr (Str s)"
    by (elim exE conjE) (rule that)
  from Cons.IH[OF w1(2) sv dk np']
  obtain w' where w': "for_each (\<lambda>kv. setItem st (fst kv) (snd kv)) kvs w1 = (Inr (), w')"
    "attached st w'" "\<forall>kv \<in> set kvs. fst (getItem st (fst kv) w') = Inr (snd kv)"
    by (elim exE conjE) (rule that)
  from set_all_frame[OF w1(2) sv]
  obtain w'' where w'': "for_each (\<lambda>kv. setItem st (fst kv) (snd kv)) kvs w1 = (Inr (), w'')"
    "\<forall>k. k \<notin> fst ` set kvs \<longrightarrow> fst (getItem st k w'') = fst (getItem st k w1)"
    by (elim exE conjE) (rule that)
  from w'(1) w''(1) have "w'' = w'" by simp
  with w''(2) fresh have "fst (getItem st (fst kv) w') = fst (getItem st (fst kv) w1)"
    by simp
  then have g: "fst (getItem st (fst kv) w') = Inr (snd kv)"
    using w1(3) np by (simp add: s)
  have c1: "for_each (\<lambda>kv. setItem st (fst kv) (snd kv)) (kv # kvs) w = (Inr (), w')"
    by (simp add: bind_def s w1(1) w'(1))
  have c3: "\<forall>x \<in> set (kv # kvs). fst (getItem st (fst x) w') = Inr (snd x)"
    using g w'(3) by simp
  show ?case
    by (intro exI[of _ w'] conjI) (fact c1 w'(2) c3)+
qed

lemma setStates_resume_writes:
  assumes inv: "init_inv st d w" and ne: "state d \<noteq> []"
  shows "\<exists>w'. setStates_resume d (state d)
                (if cls st = WebWindowStore then Settled (Inr True) else AfterPing) w = (Inr (), w')
           \<and> (\<forall>kv \<in> set (state d). fst (getItem st (fst kv) w') = Inr (snd kv)
                                      \<and> fst (hasKey st (fst kv) w') = Inr True)"
proof -
  from inv have ds: "dstorage d = Some st" and at: "attached st w"
    and sv: "string_valued (state d)" and dk: "distinct (map fst (state d))"
    and np: "''__proto__'' \<notin> fst ` set (state d)"
    and ping: "cls st \<noteq> WebWindowStore \<longrightarrow> fst (getItem st pingKey w) = Inr (Str pingValue)"
    using ne by (simp_all add: init_inv_def)
  have loop: "(\<lambda>kv. on_storage d (\<lambda>st. setItem st (fst kv) (snd kv))) = (\<lambda>kv. setItem st (fst kv) (snd kv))"
    by (simp add: on_storage_Some[OF ds])
  have "\<exists>w1. attached st w1 \<and>
      setStates_resume d (state d) (if cls st = WebWindowStore then Settled (Inr True) else AfterPing) w
        = for_each (\<lambda>kv. setItem st (fst kv) (snd kv)) (state d) w1"
    using at
  proof (cases rule: attached_cases)
    case (web r)
    then have nw: "cls st \<noteq> WebWindowStore" by (simp add: is_web_def)
    let ?w1 = "upd_store r (\<lambda>m. m(getPrefixedName st pingKey := None)) w"
    have g: "getItem st pingKey w = (Inr (Str pingValue), w)"
      using ping nw getItem_world[of st pingKey w] by (cases "getItem st pingKey w") simp
    have a1: "attached st ?w1"
      using web by (auto simp: attached_def is_web_def)
    have "setStates_resume d (state d) AfterPing w
        = for_each (\<lambda>kv. setItem st (fst kv) (snd kv)) (state d) ?w1"
      by (simp add: setStates_resume_def isConnected_resume_def bind_def return_def
          on_storage_Some[OF ds] g removeItem_web[OF web] loop)
    with a1 nw show ?thesis by auto
  next
    case (window a obj)
    have "setStates_resume d (state d) (Settled (Inr True)) w
        = for_each (\<lambda>kv. setItem st (fst kv) (snd kv)) (state d) w"
      by (simp add: setStates_resume_def isConnected_resume_def bind_def on_storage_Some[OF ds] loop)
    with at window(1) show ?thesis by auto
  qed
  then obtain w1 where w1: "attached st w1"
    "setStates_resume d (state d) (if cls st = WebWindowStore then Settled (Inr True) else AfterPing) w
        = for_each (\<lambda>kv. setItem st (fst kv) (snd kv)) (state d) w1"
    by (elim exE conjE) (rule that)
  from set_all_post[OF w1(1) sv dk np]
  obtain w' where w': "for_each (\<lambda>kv. setItem st (fst kv) (snd kv)) (state d) w1 = (Inr (), w')"
    "\<forall>kv \<in> set (state d). fst (getItem st (fst kv) w') = Inr (snd kv)"
    by (elim exE conjE) (rule that)
  have "\<forall>kv \<in> set (state d). fst (getItem st (fst kv) w') = Inr (snd kv)
                                      \<and> fst (hasKey st (fst kv) w') = Inr True"
  proof
    fix kv assume m: "kv \<in> set (state d)"
    with w'(2) have g: "fst (getItem st (fst kv) w') = Inr (snd kv)" by simp
    from m sv have "snd kv \<noteq> Null" by (auto simp: string_valued_def list_all_iff is_Str_def)
    with g show "fst (getItem st (fst kv) w') = Inr (snd kv) \<and> fst (hasKey st (fst kv) w') = Inr True"
      by (simp add: hasKey_eq)
  qed
  then show ?thesis
    using w1(2) w'(1) by simp
qed

lemma init_calls_then_resume:
  assumes "dstorage d = Some st" and "attached st w" and "state d = []"
    and "list_all string_record calls"
    and "(\<Union>args \<in> set calls. keys_of args) - {''__proto__''} \<noteq> {}"
  shows "\<exists>d' w' w''. init_calls reg d calls w = (Inr (), d', w')
           \<and> setStates_resume d' (state d')
                 (if cls st = WebWindowStore then Settled (Inr True) else AfterPing) w' = (Inr (), w'')
           \<and> (\<forall>kv \<in> set (state d'). fst (getItem st (fst kv) w'') = Inr (snd kv)
                                       \<and> fst (hasKey st (fst kv) w'') = Inr True)"
proof -
  from init_calls_inv[OF assms(4) fresh_init_inv[OF assms(1,2,3)], of reg]
  obtain d' w' where r: "init_calls reg d calls w = (Inr (), d', w')" "init_inv st d' w'"
    "fst ` set (state d') =
       fst ` set (state d) \<union> ((\<Union>args \<in> set calls. keys_of args) - {''__proto__''})"
    by (elim exE conjE) (rule that)
  from r(3) assms(3,5) have ne: "state d' \<noteq> []" by auto
  from setStates_resume_writes[OF r(2) ne]
  obtain w'' where "setStates_resume d' (state d')
                 (if cls st = WebWindowStore then Settled (Inr True) else AfterPing) w' = (Inr (), w'')"
    "\<forall>kv \<in> set (state d'). fst (getItem st (fst kv) w'') = Inr (snd kv)
                                       \<and> fst (hasKey st (fst kv) w'') = Inr True"
    by (elim exE conjE) (rule that)
  with r(1) show ?thesis by blast
qed








section \<open>Registration on a Storage-backed store\<close>

text \<open>
  On \<open>WebLocalStorage\<close> and \<open>WebSessionStorage\<close>, where \<open>getItem\<close> returns \<open>null\<close>
  for a missing key, \<open>handleUserRegistration\<close> without a stored project identifier
  does fail with \<open>Error("Project Identifier is not provided")\<close>, whatever resolver is
  bound.
\<close>

lemma handleUserRegistration_missing_project:
  assumes "is_web st r" and "dstorage d = Some st"
    and "store_of r w (getPrefixedName st ''project_identifier'') = None"
  shows "fst (handleUserRegistration ext d w) = Inl (Error ''Project Identifier is not provided'')"
  by (simp add: handleUserRegistration_def bind_def on_storage_Some[OF assms(2)] hasKey_eq
      getItem_web[OF assms(1)] assms(3) throw_def)

section \<open>captureData on any delegate whose project is not verified\<close>

lemma removeItem_attached: "attached st w \<Longrightarrow> fst (removeItem st k w) = Inr ()"
  by (auto simp: attached_def removeItem_def naive_removeItem_def obj_delete_def throw_def
      split: nullable.splits storage_ref.splits option.splits)

text \<open>
  Whatever the class of the delegate: when the configuration holds a project identifier
  and the backend does not answer that it is verified (it answers false, or the call
  fails), \<open>captureData\<close> rejects with the error \<open>errorRedirect\<close> throws.
\<close>

lemma captureData_unverified_project:
  assumes cfg: "getConfigurationData ext d w = (Inr query, w1)"
    and st: "dstorage d = Some st" and at: "attached st w1"
    and hk: "fst (hasKey st ''walletconnect'' w1) = Inr h"
    and pid: "js_get query ''project_identifier'' = Inr projectId" "projectId \<noteq> Undefined"
    and bad: "project_ident ext projectId \<noteq> Inr True"
    and modelled: "project_ident ext projectId \<noteq> Inl OutsideModel"
  shows "fst (captureData reg ext d w) = Inl (Error ''Method to be implemented'')"
proof -
  have hk': "hasKey st ''walletconnect'' w1 = (Inr h, w1)"
    using hk hasKey_world[of st "''walletconnect''" w1] by (cases "hasKey st ''walletconnect'' w1") simp
  obtain w2 where rm: "removeItem st ''walletconnect'' w1 = (Inr (), w2)"
    using removeItem_attached[OF at, of "''walletconnect''"]
    by (cases "removeItem st ''walletconnect'' w1") auto
  have guard: "catch
      (bind (verifyProject ext projectId) (\<lambda>res.
         if \<not> res then throw (InvalidProjectIdError projectId)
         else on_storage d (\<lambda>st. not_awaited (setItem st ''project_identifier'' projectId))))
      (\<lambda>_. errorRedirect ''InvalidProjectIdError'' 100000) u
      = (Inl (Error ''Method to be implemented''), u)" for u
  proof (cases "project_ident ext projectId")
    case (Inl e)
    then show ?thesis
      using modelled by (simp add: catch_def bind_def verifyProject_def errorRedirect_def throw_def)
  next
    case (Inr b)
    with bad have "\<not> b" by simp
    with Inr show ?thesis
      by (simp add: catch_def bind_def verifyProject_def errorRedirect_def throw_def)
  qed
  show ?thesis
    unfolding captureData_def
    by (simp add: bind_def cfg on_storage_Some[OF st] hk' rm return_def lift_def pid
        guard[unfolded bind_def])
qed

end
